theory Spec2Isabelle
  imports Complex_Main "HOL-Library.Sublist"
begin

section \<open>Numbers\<close>

text \<open>
  The editor is JavaScript: every time position and pixel coordinate is an IEEE binary64
  number, and channel data is stored as 32-bit floats. Sample indices and identifiers are
  integers.

  The operations are first embedded over the reals, with every sum, difference and
  product exact; the results stated over that embedding are results about the algorithms
  in exact arithmetic. Where what the code does turns on the rounding of a time
  coordinate, namely the order of chunk bounds after a shift and the floor of a summed
  duration, the operation is embedded a second time with each arithmetic operation
  rounded to binary64, as the engine rounds it. Where a read past the end of an array
  enters the arithmetic (\<^verbatim>\<open>normalizeAudio\<close>), the value NaN is represented. The rounding
  of stored samples to 32-bit floats is not represented.
\<close>

subsection \<open>Rounding to binary64\<close>

text \<open>
  Rounding to the nearest integer, ties to even, and rounding of a real to the nearest
  number with a 53-bit significand. Overflow to infinity and the subnormal range are left
  out: the definition is the engine's rounding for magnitudes between \<open>2\<^sup>-\<^sup>1\<^sup>0\<^sup>2\<^sup>2\<close> and
  \<open>2\<^sup>1\<^sup>0\<^sup>2\<^sup>4\<close>, a range that the times and frame counts of an audio file do not leave.
\<close>

definition rne :: "real \<Rightarrow> int" where
  "rne x =
     (let f = \<lfloor>x\<rfloor>; r = x - of_int f
      in if r < 1 / 2 then f else if 1 / 2 < r then f + 1 else if even f then f else f + 1)"

definition binary64 :: "real \<Rightarrow> real" where
  "binary64 x =
     (if x = 0 then 0
      else (let u = 2 powr of_int (\<lfloor>log 2 \<bar>x\<bar>\<rfloor> - 52) in of_int (rne (x / u)) * u))"

text \<open>The engine's \<^verbatim>\<open>a + b\<close>, \<^verbatim>\<open>a - b\<close> and \<^verbatim>\<open>a * b\<close> on numbers.\<close>

definition dadd :: "real \<Rightarrow> real \<Rightarrow> real" where
  "dadd a b = binary64 (a + b)"

definition dsub :: "real \<Rightarrow> real \<Rightarrow> real" where
  "dsub a b = binary64 (a - b)"

definition dmul :: "real \<Rightarrow> real \<Rightarrow> real" where
  "dmul a b = binary64 (a * b)"

text \<open>The numbers that the decimal literals \<^verbatim>\<open>0.1\<close>, \<^verbatim>\<open>0.4\<close>, \<^verbatim>\<open>0.7\<close>, \<^verbatim>\<open>1.4\<close> and
  \<^verbatim>\<open>1.7\<close> denote.\<close>

definition d01 :: real where "d01 = binary64 (1 / 10)"

definition d04 :: real where "d04 = binary64 (4 / 10)"

definition d07 :: real where "d07 = binary64 (7 / 10)"

definition d14 :: real where "d14 = binary64 (14 / 10)"

definition d17 :: real where "d17 = binary64 (17 / 10)"

section \<open>Chunks (src/js/chunk-manager.js)\<close>

text \<open>
  A chunk is the object \<^verbatim>\<open>{ start, end, id }\<close>. The field \<^verbatim>\<open>end\<close> is named \<open>endt\<close> and
  \<^verbatim>\<open>id\<close> is named \<open>cid\<close>, since \<open>end\<close> is a keyword and \<open>id\<close> a constant here.
\<close>

record chunk =
  start :: real
  endt :: real
  cid :: nat

text \<open>
  The fields of \<^verbatim>\<open>ChunkManager\<close> that its operations read and write. The DOM overlays
  maintained by \<^verbatim>\<open>updateChunkOverlays\<close> are display only and are left out.
  \<^verbatim>\<open>selectedChunk\<close> holds a chunk object or \<^verbatim>\<open>null\<close>.
\<close>

record chunk_manager =
  chunks :: "chunk list"
  selectedChunk :: "chunk option"
  nextChunkId :: nat

text \<open>\<^verbatim>\<open>initializeChunks(audioBuffer)\<close>, given the duration of the buffer.\<close>

definition initializeChunks :: "real \<Rightarrow> chunk_manager" where
  "initializeChunks duration =
     \<lparr>chunks = [\<lparr>start = 0, endt = duration, cid = 0\<rparr>], selectedChunk = None,
      nextChunkId = 1\<rparr>"

text \<open>\<^verbatim>\<open>Array.prototype.findIndex\<close>: the first index whose element satisfies the predicate;
  the result \<^verbatim>\<open>-1\<close> is \<open>None\<close>.\<close>

fun findIndex :: "('a \<Rightarrow> bool) \<Rightarrow> 'a list \<Rightarrow> nat option" where
  "findIndex P [] = None"
| "findIndex P (x # xs) =
     (if P x then Some 0 else map_option Suc (findIndex P xs))"

text \<open>\<^verbatim>\<open>xs.splice(k, n, ...ins)\<close>: remove \<open>n\<close> elements at index \<open>k\<close> and insert \<open>ins\<close> there.\<close>

definition splice :: "'a list \<Rightarrow> nat \<Rightarrow> nat \<Rightarrow> 'a list \<Rightarrow> 'a list" where
  "splice xs k n ins = take k xs @ ins @ drop (k + n) xs"

text \<open>\<^verbatim>\<open>splitAtPosition(splitTime)\<close> returns the success flag together with the new state.\<close>

definition splitAtPosition :: "chunk_manager \<Rightarrow> real \<Rightarrow> bool \<times> chunk_manager" where
  "splitAtPosition m splitTime =
     (case findIndex (\<lambda>c. splitTime > start c \<and> splitTime < endt c) (chunks m) of
        None \<Rightarrow> (False, m)
      | Some chunkIndex \<Rightarrow>
          (let originalChunk = chunks m ! chunkIndex;
               leftChunk = \<lparr>start = start originalChunk, endt = splitTime,
                            cid = nextChunkId m\<rparr>;
               rightChunk = \<lparr>start = splitTime, endt = endt originalChunk,
                             cid = nextChunkId m + 1\<rparr>
           in (True, m\<lparr>chunks := splice (chunks m) chunkIndex 1 [leftChunk, rightChunk],
                       selectedChunk := None,
                       nextChunkId := nextChunkId m + 2\<rparr>)))"

text \<open>
  The callback that \<^verbatim>\<open>deleteTimeRange\<close> maps over the chunks, with its branches in the
  order of the source; \<open>None\<close> is the \<^verbatim>\<open>null\<close> that marks a chunk for removal. The
  subtractions are exact here; \<open>shiftChunk64\<close> below rounds them.
\<close>

definition shiftChunk :: "real \<Rightarrow> real \<Rightarrow> chunk \<Rightarrow> chunk option" where
  "shiftChunk startTime endTime c =
     (let deleteDuration = endTime - startTime in
      if start c \<ge> endTime then
        Some (c\<lparr>start := start c - deleteDuration, endt := endt c - deleteDuration\<rparr>)
      else if endt c \<le> startTime then Some c
      else if start c \<ge> startTime \<and> endt c \<le> endTime then None
      else if start c < startTime \<and> endt c > endTime then
        Some (c\<lparr>endt := endt c - deleteDuration\<rparr>)
      else if start c < startTime \<and> endt c > startTime then
        Some (c\<lparr>endt := startTime\<rparr>)
      else if start c < endTime \<and> endt c > endTime then
        Some (c\<lparr>start := startTime, endt := endt c - deleteDuration\<rparr>)
      else Some c)"

definition deleteTimeRange :: "chunk_manager \<Rightarrow> real \<Rightarrow> real \<Rightarrow> chunk_manager" where
  "deleteTimeRange m startTime endTime =
     (let cs = map the (filter (\<lambda>r. r \<noteq> None)
                  (map (shiftChunk startTime endTime) (chunks m)))
      in m\<lparr>chunks := cs,
            selectedChunk :=
              (case selectedChunk m of
                 None \<Rightarrow> None
               | Some sc \<Rightarrow>
                   (if find (\<lambda>c. cid c = cid sc) cs = None then None else Some sc))\<rparr>)"

text \<open>
  The same callback and the same operation with each subtraction rounded to binary64, as
  the engine computes them.
\<close>

definition shiftChunk64 :: "real \<Rightarrow> real \<Rightarrow> chunk \<Rightarrow> chunk option" where
  "shiftChunk64 startTime endTime c =
     (let deleteDuration = dsub endTime startTime in
      if start c \<ge> endTime then
        Some (c\<lparr>start := dsub (start c) deleteDuration,
                endt := dsub (endt c) deleteDuration\<rparr>)
      else if endt c \<le> startTime then Some c
      else if start c \<ge> startTime \<and> endt c \<le> endTime then None
      else if start c < startTime \<and> endt c > endTime then
        Some (c\<lparr>endt := dsub (endt c) deleteDuration\<rparr>)
      else if start c < startTime \<and> endt c > startTime then
        Some (c\<lparr>endt := startTime\<rparr>)
      else if start c < endTime \<and> endt c > endTime then
        Some (c\<lparr>start := startTime, endt := dsub (endt c) deleteDuration\<rparr>)
      else Some c)"

definition deleteTimeRange64 :: "chunk_manager \<Rightarrow> real \<Rightarrow> real \<Rightarrow> chunk_manager" where
  "deleteTimeRange64 m startTime endTime =
     (let cs = map the (filter (\<lambda>r. r \<noteq> None)
                  (map (shiftChunk64 startTime endTime) (chunks m)))
      in m\<lparr>chunks := cs,
            selectedChunk :=
              (case selectedChunk m of
                 None \<Rightarrow> None
               | Some sc \<Rightarrow>
                   (if find (\<lambda>c. cid c = cid sc) cs = None then None else Some sc))\<rparr>)"

text \<open>The duration of a chunk and the total the source computes with
  \<^verbatim>\<open>chunks.reduce((sum, chunk) => sum + (chunk.end - chunk.start), 0)\<close>.\<close>

definition chunkDuration :: "chunk \<Rightarrow> real" where
  "chunkDuration c = endt c - start c"

definition totalChunkDuration :: "chunk list \<Rightarrow> real" where
  "totalChunkDuration cs = foldl (\<lambda>sum c. sum + (endt c - start c)) 0 cs"

definition chunkSpan :: "chunk \<Rightarrow> real \<times> real" where
  "chunkSpan c = (start c, endt c)"


subsection \<open>Vocabulary of the chunk properties\<close>

text \<open>A split time is valid for a chunk when it lies strictly inside it.\<close>

definition splitsAt :: "real \<Rightarrow> chunk \<Rightarrow> bool" where
  "splitsAt t c = (start c < t \<and> t < endt c)"

text \<open>
  Where a time position lands once the range from \<open>s\<close> to \<open>e\<close> has been cut out: positions
  before the range stay, positions inside collapse onto \<open>s\<close>, later ones move left.
\<close>

definition timeShift :: "real \<Rightarrow> real \<Rightarrow> real \<Rightarrow> real" where
  "timeShift s e x = (if x \<le> s then x else if x \<le> e then s else x - (e - s))"

text \<open>A chunk that lies wholly inside the deleted range.\<close>

definition swallowed :: "real \<Rightarrow> real \<Rightarrow> chunk \<Rightarrow> bool" where
  "swallowed s e c = (s \<le> start c \<and> endt c \<le> e \<and> start c < e \<and> s < endt c)"

text \<open>A contiguous chunk list: every chunk ends where the next one starts.\<close>

fun contiguous :: "chunk list \<Rightarrow> bool" where
  "contiguous [] = True"
| "contiguous [c] = (start c \<le> endt c)"
| "contiguous (c # d # cs) =
     (start c \<le> endt c \<and> endt c = start d \<and> contiguous (d # cs))"

text \<open>
  The well-formedness of the data model: every chunk has \<open>0 \<le> start < end\<close>, the list is
  in increasing time order, and the intervals are pairwise non-overlapping.
\<close>

definition wellFormed :: "chunk list \<Rightarrow> bool" where
  "wellFormed cs =
     ((\<forall>c \<in> set cs. 0 \<le> start c \<and> start c < endt c) \<and>
      sorted_wrt (\<lambda>c d. start c < start d \<and> (endt c \<le> start d \<or> endt d \<le> start c)) cs)"

definition separated :: "chunk list \<Rightarrow> bool" where
  "separated cs =
     ((\<forall>c \<in> set cs. 0 \<le> start c \<and> start c < endt c) \<and>
      sorted_wrt (\<lambda>c d. endt c \<le> start d) cs)"

definition survivors :: "real \<Rightarrow> real \<Rightarrow> chunk list \<Rightarrow> chunk list" where
  "survivors s e cs = map the (filter (\<lambda>r. r \<noteq> None) (map (shiftChunk s e) cs))"

text \<open>The chunk list of the delete scenario.\<close>

definition scenarioChunks :: "chunk_manager" where
  "scenarioChunks =
     \<lparr>chunks = [\<lparr>start = 0, endt = 3, cid = 1\<rparr>, \<lparr>start = 3, endt = 10, cid = 2\<rparr>],
      selectedChunk = None, nextChunkId = 3\<rparr>"

text \<open>A buffer of 1.4 s split at 0.1 s and at 0.7 s, the times being the numbers those
  literals denote.\<close>

definition driftManager :: chunk_manager where
  "driftManager =
     \<lparr>chunks = [\<lparr>start = 0, endt = d01, cid = 1\<rparr>, \<lparr>start = d01, endt = d07, cid = 2\<rparr>,
                \<lparr>start = d07, endt = d14, cid = 3\<rparr>],
      selectedChunk = None, nextChunkId = 4\<rparr>"

section \<open>Sample buffers\<close>

text \<open>
  An \<^verbatim>\<open>AudioBuffer\<close>: its sample rate, its \<^verbatim>\<open>length\<close> in frames (\<open>blength\<close>) and one
  \<^verbatim>\<open>Float32Array\<close> per channel. \<^verbatim>\<open>numberOfChannels\<close> is the number of arrays.
\<close>

record audio_buffer =
  sampleRate :: real
  blength :: nat
  channelData :: "real list list"

definition numberOfChannels :: "audio_buffer \<Rightarrow> nat" where
  "numberOfChannels b = length (channelData b)"

text \<open>Every channel of a buffer holds \<open>blength\<close> frames, and there is at least one frame and
  one channel; the platform never hands out another kind of buffer.\<close>

definition validBuffer :: "audio_buffer \<Rightarrow> bool" where
  "validBuffer b =
     (0 < blength b \<and> channelData b \<noteq> [] \<and>
      (\<forall>ch \<in> set (channelData b). length ch = blength b))"

datatype error = NotSupportedError

text \<open>
  \<^verbatim>\<open>audioContext.createBuffer(channels, length, sampleRate)\<close> belongs to the Web Audio
  platform, not to the repository. It returns a zero-filled buffer, and it raises
  \<^verbatim>\<open>NotSupportedError\<close> when the channel count or the length is not at least one. The
  platform's upper limits and its bounds on the sample rate are not modelled: the editor
  always passes the rate of a buffer that the platform itself produced.
\<close>

definition createBuffer :: "nat \<Rightarrow> int \<Rightarrow> real \<Rightarrow> error + audio_buffer" where
  "createBuffer channels len rate =
     (if channels = 0 \<or> len \<le> 0 then Inl NotSupportedError
      else Inr \<lparr>sampleRate = rate, blength = nat len,
                channelData = replicate channels (replicate (nat len) 0)\<rparr>)"

text \<open>
  Typed-array access. Reading outside the array gives \<^verbatim>\<open>undefined\<close> (\<open>None\<close>); writing
  outside the array is ignored.
\<close>

definition sampleAt :: "'a list \<Rightarrow> int \<Rightarrow> 'a option" where
  "sampleAt xs i = (if 0 \<le> i \<and> i < int (length xs) then Some (xs ! nat i) else None)"

definition ta_write :: "'a list \<Rightarrow> int \<Rightarrow> 'a \<Rightarrow> 'a list" where
  "ta_write xs i v = (if 0 \<le> i \<and> i < int (length xs) then xs[nat i := v] else xs)"

text \<open>
  \<^verbatim>\<open>undefined\<close> used as a number is not-a-number, which the reals do not have: \<open>num\<close>
  leaves that value unspecified, so nothing can be proved from it, and every theorem that
  depends on such a read carries the bounds that keep the read inside the array.
  \<^verbatim>\<open>x || 0\<close> (\<open>orZero\<close>) replaces \<^verbatim>\<open>undefined\<close> by zero.
\<close>

definition num :: "real option \<Rightarrow> real" where
  "num r = (case r of Some v \<Rightarrow> v | None \<Rightarrow> undefined)"

definition orZero :: "real option \<Rightarrow> real" where
  "orZero r = (case r of Some v \<Rightarrow> v | None \<Rightarrow> 0)"

text \<open>\<^verbatim>\<open>for (let i = a; i < n; i++) s = body(i, s)\<close>.\<close>

function forLoop :: "int \<Rightarrow> int \<Rightarrow> (int \<Rightarrow> 's \<Rightarrow> 's) \<Rightarrow> 's \<Rightarrow> 's" where
  "forLoop i n body s = (if i < n then forLoop (i + 1) n body (body i s) else s)"
  by pat_completeness auto
termination
  by (relation "measure (\<lambda>(i, n, body, s). nat (n - i))") auto

declare forLoop.simps [simp del]

text \<open>
  \<^verbatim>\<open>for (let channel = 0; channel < channels; channel++)\<close> over the channels of the
  buffer under construction: the body receives the channel number and that channel's
  array \<^verbatim>\<open>newData\<close>, which it updates in place.
\<close>

definition eachChannel ::
  "nat \<Rightarrow> (nat \<Rightarrow> 'a list \<Rightarrow> 'a list) \<Rightarrow> 'a list list \<Rightarrow> 'a list list" where
  "eachChannel channels body cd =
     fold (\<lambda>channel cd. cd[channel := body channel (cd ! channel)]) [0..<channels] cd"

section \<open>The editor (AudioChunkingEditor)\<close>

text \<open>
  The editor fields that the modelled operations read and write; \<open>pausedAtTime\<close> is the
  field of the editor's \<^verbatim>\<open>audioPlayer\<close>. The renderer and the DOM are display state.
\<close>

record editor =
  audioBuffer :: "audio_buffer option"
  chunkManager :: chunk_manager
  selection :: "real \<times> real"
  pausedAtTime :: real
  seekPosition :: real

text \<open>\<^verbatim>\<open>Math.floor(time * sampleRate)\<close>, the sample index of a time position, the
  product being exact. The results on the sample operations are stated in terms of the
  indices, whatever their values.\<close>

definition toSample :: "audio_buffer \<Rightarrow> real \<Rightarrow> int" where
  "toSample b t = \<lfloor>t * sampleRate b\<rfloor>"

text \<open>A small editor state: two channels of four frames at one frame per second.\<close>

definition exampleBuffer :: audio_buffer where
  "exampleBuffer =
     \<lparr>sampleRate = 1, blength = 4,
      channelData = [[0.1, 0.2, 0.3, 0.4], [0.5, 0.6, 0.7, 0.8]]\<rparr>"

definition exampleEditor :: editor where
  "exampleEditor =
     \<lparr>audioBuffer = Some exampleBuffer, chunkManager = initializeChunks 4,
      selection = (1, 2), pausedAtTime = 3, seekPosition = 3\<rparr>"

text \<open>The two copy loops of \<^verbatim>\<open>deleteAudioRange\<close> for one channel.\<close>

definition deleteCopy :: "int \<Rightarrow> int \<Rightarrow> real list \<Rightarrow> real list \<Rightarrow> real list" where
  "deleteCopy startSample endSample oldData newData =
     (let samplesToDelete = endSample - startSample;
          nd = forLoop 0 startSample (\<lambda>i nd. ta_write nd i (num (sampleAt oldData i))) newData
      in forLoop endSample (int (length oldData))
           (\<lambda>i nd. ta_write nd (i - samplesToDelete) (num (sampleAt oldData i))) nd)"

text \<open>The remapping of the resume position at the end of \<^verbatim>\<open>deleteAudioRange\<close>.\<close>

definition remapPaused :: "real \<Rightarrow> real \<Rightarrow> real \<Rightarrow> real" where
  "remapPaused startTime endTime p =
     (let deleteDuration = endTime - startTime in
      if p \<ge> startTime \<and> p \<le> endTime then startTime
      else if p > endTime then p - deleteDuration
      else p)"

definition deleteAudioRange :: "editor \<Rightarrow> real \<Rightarrow> real \<Rightarrow> error + editor" where
  "deleteAudioRange ed startTime endTime =
     (case audioBuffer ed of
        None \<Rightarrow> Inr ed
      | Some b \<Rightarrow>
          (let rate = sampleRate b;
               channels = numberOfChannels b;
               startSample = \<lfloor>startTime * rate\<rfloor>;
               endSample = \<lfloor>endTime * rate\<rfloor>;
               samplesToDelete = endSample - startSample;
               newLength = int (blength b) - samplesToDelete
           in case createBuffer channels newLength rate of
                Inl err \<Rightarrow> Inl err
              | Inr newBuffer \<Rightarrow>
                  (let filled = newBuffer\<lparr>channelData :=
                         eachChannel channels
                           (\<lambda>channel newData.
                              deleteCopy startSample endSample (channelData b ! channel) newData)
                           (channelData newBuffer)\<rparr>;
                       p = remapPaused startTime endTime (pausedAtTime ed)
                   in Inr (ed\<lparr>audioBuffer := Some filled,
                               chunkManager := deleteTimeRange (chunkManager ed) startTime endTime,
                               pausedAtTime := p,
                               seekPosition := p\<rparr>))))"

text \<open>The gain of \<^verbatim>\<open>applyFadeEffect\<close> at sample \<open>i\<close>; any type other than \<^verbatim>\<open>'in'\<close> fades out.\<close>

definition fadeMultiplier :: "string \<Rightarrow> int \<Rightarrow> int \<Rightarrow> int \<Rightarrow> real" where
  "fadeMultiplier ty startSample fadeLength i =
     (let fadeProgress = real_of_int (i - startSample) / real_of_int fadeLength;
          m = (if ty = ''in'' then fadeProgress else 1 - fadeProgress)
      in 0.5 * (1 - cos (m * pi)))"

text \<open>The loop that copies all samples of a channel, shared by the fade and the
  normalisation.\<close>

definition copyAll :: "real list \<Rightarrow> real list \<Rightarrow> real list" where
  "copyAll oldData newData =
     forLoop 0 (int (length oldData)) (\<lambda>i nd. ta_write nd i (num (sampleAt oldData i))) newData"

definition fadeCopy :: "string \<Rightarrow> int \<Rightarrow> int \<Rightarrow> real list \<Rightarrow> real list \<Rightarrow> real list" where
  "fadeCopy ty startSample endSample oldData newData =
     (let fadeLength = endSample - startSample;
          nd = copyAll oldData newData
      in forLoop startSample endSample
           (\<lambda>i nd. ta_write nd i
                      (num (sampleAt oldData i) * fadeMultiplier ty startSample fadeLength i))
           nd)"

definition applyFadeEffect :: "editor \<Rightarrow> real \<Rightarrow> real \<Rightarrow> string \<Rightarrow> error + editor" where
  "applyFadeEffect ed startTime endTime ty =
     (case audioBuffer ed of
        None \<Rightarrow> Inr ed
      | Some b \<Rightarrow>
          (let rate = sampleRate b;
               channels = numberOfChannels b;
               startSample = \<lfloor>startTime * rate\<rfloor>;
               endSample = \<lfloor>endTime * rate\<rfloor>
           in case createBuffer channels (int (blength b)) rate of
                Inl err \<Rightarrow> Inl err
              | Inr newBuffer \<Rightarrow>
                  (let filled = newBuffer\<lparr>channelData :=
                         eachChannel channels
                           (\<lambda>channel newData.
                              fadeCopy ty startSample endSample (channelData b ! channel) newData)
                           (channelData newBuffer)\<rparr>
                   in Inr (ed\<lparr>audioBuffer := Some filled,
                               selection := (0, 0),
                               chunkManager := (chunkManager ed)\<lparr>selectedChunk := None\<rparr>\<rparr>))))"

text \<open>The fade in the words of the specification: the progress through the range and the
  cosine ease.\<close>

definition fadeProgress :: "int \<Rightarrow> int \<Rightarrow> int \<Rightarrow> real" where
  "fadeProgress startSample endSample i =
     real_of_int (i - startSample) / real_of_int (endSample - startSample)"

definition cosineEase :: "real \<Rightarrow> real" where
  "cosineEase raw = 0.5 * (1 - cos (raw * pi))"

section \<open>Normalisation (AudioUtils.normalizeAudio)\<close>















definition clip :: "real \<Rightarrow> real" where
  "clip x = (if x < - 1 then - 1 else if x > 1 then 1 else x)"




section \<open>Combined buffer (ChunkManager.createCombinedBuffer)\<close>

text \<open>
  The arithmetic of this function is the engine's: the differences, the running sum of
  the durations and the products with the sample rate are each rounded to binary64 before
  \<^verbatim>\<open>Math.floor\<close> is taken.
\<close>

text \<open>The copy of one chunk into one channel of the combined buffer.\<close>

definition chunkCopy :: "int \<Rightarrow> int \<Rightarrow> int \<Rightarrow> int \<Rightarrow> real list \<Rightarrow> real list \<Rightarrow> real list" where
  "chunkCopy currentFrame totalFrames startFrame chunkFrames oldData newData =
     forLoop 0 chunkFrames
       (\<lambda>i nd. if currentFrame + i < totalFrames
               then ta_write nd (currentFrame + i) (orZero (sampleAt oldData (startFrame + i)))
               else nd)
       newData"

text \<open>One pass of the second \<^verbatim>\<open>chunks.forEach\<close>: the state is \<^verbatim>\<open>currentFrame\<close> and the
  channel data of the combined buffer.\<close>

definition chunkPass ::
  "audio_buffer \<Rightarrow> int \<Rightarrow> chunk \<Rightarrow> int \<times> real list list \<Rightarrow> int \<times> real list list" where
  "chunkPass originalBuffer totalFrames c st =
     (case st of (currentFrame, cd) \<Rightarrow>
        (let rate = sampleRate originalBuffer;
             startFrame = \<lfloor>dmul (start c) rate\<rfloor>;
             endFrame = \<lfloor>dmul (endt c) rate\<rfloor>;
             chunkFrames = endFrame - startFrame;
             cd' = eachChannel (numberOfChannels originalBuffer)
                     (\<lambda>channel newData.
                        chunkCopy currentFrame totalFrames startFrame chunkFrames
                          (channelData originalBuffer ! channel) newData)
                     cd
         in (currentFrame + chunkFrames, cd')))"

text \<open>
  \<^verbatim>\<open>createCombinedBuffer(audioContext, originalBuffer, chunksToInclude = null)\<close>. The
  argument \<^verbatim>\<open>null\<close> is \<open>None\<close>; an array, even an empty one, is truthy and is used as it
  is. The result \<^verbatim>\<open>null\<close> for an empty chunk list is \<open>Inr None\<close>.
\<close>

definition createCombinedBuffer ::
  "chunk_manager \<Rightarrow> audio_buffer \<Rightarrow> chunk list option \<Rightarrow> error + audio_buffer option" where
  "createCombinedBuffer m originalBuffer chunksToInclude =
     (let cs = (case chunksToInclude of None \<Rightarrow> chunks m | Some given \<Rightarrow> given) in
      if cs = [] then Inr None
      else
        (let rate = sampleRate originalBuffer;
             channels = numberOfChannels originalBuffer;
             totalDuration = fold (\<lambda>c total. dadd total (dsub (endt c) (start c))) cs 0;
             totalFrames = \<lfloor>dmul totalDuration rate\<rfloor>
         in case createBuffer channels totalFrames rate of
              Inl err \<Rightarrow> Inl err
            | Inr combinedBuffer \<Rightarrow>
                Inr (Some (combinedBuffer\<lparr>channelData :=
                       snd (fold (chunkPass originalBuffer totalFrames) cs
                              (0, channelData combinedBuffer))\<rparr>))))"

text \<open>The frame range of a chunk and the frames it selects from a channel.\<close>

definition chunkFrameCount :: "real \<Rightarrow> chunk \<Rightarrow> int" where
  "chunkFrameCount rate c = \<lfloor>dmul (endt c) rate\<rfloor> - \<lfloor>dmul (start c) rate\<rfloor>"

definition framesOf :: "real \<Rightarrow> real list \<Rightarrow> chunk \<Rightarrow> real list" where
  "framesOf rate ch c = take (nat (chunkFrameCount rate c)) (drop (nat \<lfloor>dmul (start c) rate\<rfloor>) ch)"

definition framesInside :: "audio_buffer \<Rightarrow> chunk \<Rightarrow> bool" where
  "framesInside b c =
     (0 \<le> \<lfloor>dmul (start c) (sampleRate b)\<rfloor> \<and> \<lfloor>dmul (start c) (sampleRate b)\<rfloor> \<le> \<lfloor>dmul (endt c) (sampleRate b)\<rfloor> \<and>
      \<lfloor>dmul (endt c) (sampleRate b)\<rfloor> \<le> int (blength b))"

text \<open>The chunk list the function works on, and the frame count it allocates.\<close>

definition selectedChunks :: "chunk_manager \<Rightarrow> chunk list option \<Rightarrow> chunk list" where
  "selectedChunks m chunksToInclude =
     (case chunksToInclude of None \<Rightarrow> chunks m | Some given \<Rightarrow> given)"

definition summedDuration :: "chunk list \<Rightarrow> real" where
  "summedDuration cs = fold (\<lambda>c total. dadd total (dsub (endt c) (start c))) cs 0"

definition totalFramesOf :: "audio_buffer \<Rightarrow> chunk list \<Rightarrow> int" where
  "totalFramesOf b cs = \<lfloor>dmul (summedDuration cs) (sampleRate b)\<rfloor>"

text \<open>What the passes over the chunks do to a single channel: the channels do not interact,
  and \<^verbatim>\<open>currentFrame\<close> advances by the frame count of each chunk.\<close>

fun channelPasses ::
  "real \<Rightarrow> int \<Rightarrow> real list \<Rightarrow> chunk list \<Rightarrow> int \<Rightarrow> real list \<Rightarrow> real list" where
  "channelPasses rate T old [] cur nd = nd"
| "channelPasses rate T old (c # cs) cur nd =
     channelPasses rate T old cs (cur + chunkFrameCount rate c)
       (chunkCopy cur T \<lfloor>dmul (start c) rate\<rfloor> (chunkFrameCount rate c) old nd)"

text \<open>The example buffer split at 1.5 s, and the chunks from that split point on, as the
  sequence playback passes them when it resumes there.\<close>

definition splitManager :: chunk_manager where
  "splitManager =
     \<lparr>chunks = [\<lparr>start = 0, endt = 1.5, cid = 1\<rparr>, \<lparr>start = 1.5, endt = 4, cid = 2\<rparr>],
      selectedChunk = None, nextChunkId = 3\<rparr>"

definition resumeChunks :: "chunk list" where
  "resumeChunks = [\<lparr>start = 1.5, endt = 4, cid = 2\<rparr>]"

text \<open>The example buffer split at 0.4 s and at 1.7 s: the full chunk list, contiguous
  from 0 to the duration of the buffer.\<close>

definition fullManager :: chunk_manager where
  "fullManager =
     \<lparr>chunks = [\<lparr>start = 0, endt = d04, cid = 3\<rparr>, \<lparr>start = d04, endt = d17, cid = 4\<rparr>,
                \<lparr>start = d17, endt = 4, cid = 2\<rparr>],
      selectedChunk = None, nextChunkId = 5\<rparr>"

section \<open>Time to pixel (WaveformRenderer.getPixelPositionForTime)\<close>

text \<open>
  The renderer fields the conversion reads: the canvas width, the chunk list, the duration
  of the loaded buffer (\<open>None\<close> when no buffer is loaded), the zoom level and the zoom offset.
\<close>

record renderer =
  canvasWidth :: real
  rchunks :: "chunk list"
  bufferDuration :: "real option"
  zoomLevel :: real
  zoomOffset :: real

definition getVisibleTimeRange :: "renderer \<Rightarrow> real \<times> real" where
  "getVisibleTimeRange r =
     (case bufferDuration r of
        None \<Rightarrow> (0, 0)
      | Some d \<Rightarrow>
          (let visibleDuration = d / zoomLevel r
           in (zoomOffset r, min d (zoomOffset r + visibleDuration))))"

text \<open>The part of a chunk inside the visible range.\<close>

definition clipStart :: "real \<times> real \<Rightarrow> chunk \<Rightarrow> real" where
  "clipStart vr c = max (start c) (fst vr)"

definition clipEnd :: "real \<times> real \<Rightarrow> chunk \<Rightarrow> real" where
  "clipEnd vr c = min (endt c) (snd vr)"

text \<open>The \<^verbatim>\<open>for (const chunk of visibleChunks)\<close> loop with its running \<^verbatim>\<open>currentX\<close>; the
  value after the loop is the final \<^verbatim>\<open>return 0\<close>. \<open>totalDur\<close> and \<open>availWidth\<close> are the
  source's \<^verbatim>\<open>totalVisibleDuration\<close> and \<^verbatim>\<open>availableWidth\<close>.\<close>

fun walkChunks :: "real \<times> real \<Rightarrow> real \<Rightarrow> real \<Rightarrow> real \<Rightarrow> real \<Rightarrow> chunk list \<Rightarrow> real" where
  "walkChunks vr totalDur availWidth time currentX [] = 0"
| "walkChunks vr totalDur availWidth time currentX (c # rest) =
     (let chunkStart = clipStart vr c;
          chunkEnd = clipEnd vr c;
          visibleChunkDuration = chunkEnd - chunkStart
      in if time \<ge> chunkStart \<and> time \<le> chunkEnd then
           (let timeInChunk = time - chunkStart;
                progressInChunk = timeInChunk / visibleChunkDuration;
                chunkWidthRatio = visibleChunkDuration / totalDur;
                chunkWidth = availWidth * chunkWidthRatio
            in currentX + progressInChunk * chunkWidth)
         else
           (let chunkWidthRatio = visibleChunkDuration / totalDur;
                chunkWidth = availWidth * chunkWidthRatio
            in walkChunks vr totalDur availWidth time (currentX + chunkWidth + 4) rest))"

definition visibleChunks :: "renderer \<Rightarrow> chunk list" where
  "visibleChunks r =
     filter (\<lambda>c. endt c > fst (getVisibleTimeRange r) \<and> start c < snd (getVisibleTimeRange r))
       (rchunks r)"

definition totalVisibleDuration :: "real \<times> real \<Rightarrow> chunk list \<Rightarrow> real" where
  "totalVisibleDuration vr cs = fold (\<lambda>c total. total + (clipEnd vr c - clipStart vr c)) cs 0"

definition availableWidth :: "renderer \<Rightarrow> real" where
  "availableWidth r =
     (let gapWidth = 4;
          totalGaps = max 0 (real (length (visibleChunks r)) - 1) * gapWidth
      in canvasWidth r - totalGaps)"

definition getPixelPositionForTime :: "renderer \<Rightarrow> real \<Rightarrow> real" where
  "getPixelPositionForTime r time =
     (let visibleRange = getVisibleTimeRange r in
      if time < fst visibleRange \<or> time > snd visibleRange then - 1
      else if visibleChunks r = [] then - 1
      else walkChunks visibleRange (totalVisibleDuration visibleRange (visibleChunks r))
             (availableWidth r) time 0 (visibleChunks r))"

text \<open>The layout in the words of the specification: the width a chunk receives, and
  whether a chunk owns a time.\<close>

definition widthOf :: "renderer \<Rightarrow> chunk \<Rightarrow> real" where
  "widthOf r c =
     availableWidth r *
       ((clipEnd (getVisibleTimeRange r) c - clipStart (getVisibleTimeRange r) c) /
        totalVisibleDuration (getVisibleTimeRange r) (visibleChunks r))"

definition owns :: "renderer \<Rightarrow> real \<Rightarrow> chunk \<Rightarrow> bool" where
  "owns r time c =
     (clipStart (getVisibleTimeRange r) c \<le> time \<and> time \<le> clipEnd (getVisibleTimeRange r) c)"

fun inSomeChunk :: "real \<Rightarrow> chunk list \<Rightarrow> bool" where
  "inSomeChunk time [] = False"
| "inSomeChunk time (c # cs) = ((start c \<le> time \<and> time \<le> endt c) \<or> inSomeChunk time cs)"

text \<open>Two renderer states at zoom level 1 over a three-second buffer on a canvas 100
  pixels wide: one whose chunks leave the span from 1 to 2 uncovered, and one whose only
  chunk ends at 2.75 s, as it does after the selection from 0.5 s to 1.75 s is deleted
  from a buffer of four frames at one frame per second.\<close>

definition gapRenderer :: renderer where
  "gapRenderer =
     \<lparr>canvasWidth = 100,
      rchunks = [\<lparr>start = 0, endt = 1, cid = 1\<rparr>, \<lparr>start = 2, endt = 3, cid = 2\<rparr>],
      bufferDuration = Some 3, zoomLevel = 1, zoomOffset = 0\<rparr>"

definition trailingRenderer :: renderer where
  "trailingRenderer =
     \<lparr>canvasWidth = 100, rchunks = [\<lparr>start = 0, endt = 2.75, cid = 0\<rparr>],
      bufferDuration = Some 3, zoomLevel = 1, zoomOffset = 0\<rparr>"

section \<open>Properties of rounding\<close>

lemma rne_near: "\<bar>y - of_int n\<bar> < 1 / 2 \<Longrightarrow> rne y = n"
proof -
  assume a: "\<bar>y - of_int n\<bar> < 1 / 2"
  show ?thesis
  proof (cases "of_int n \<le> y")
    case True
    then have "\<lfloor>y\<rfloor> = n" using a by (intro floor_unique) linarith+
    then show ?thesis using a True by (simp add: rne_def Let_def)
  next
    case False
    then have "\<lfloor>y\<rfloor> = n - 1" using a by (intro floor_unique) (simp, linarith)+
    then show ?thesis using a False by (simp add: rne_def Let_def)
  qed
qed

lemma rne_tie: "y = of_int n + 1 / 2 \<Longrightarrow> even n \<Longrightarrow> rne y = n"
proof -
  assume a: "y = of_int n + 1 / 2" and e: "even n"
  have "\<lfloor>y\<rfloor> = n" unfolding a by (intro floor_unique) simp_all
  then show ?thesis using a e by (simp add: rne_def Let_def)
qed

text \<open>A number whose magnitude, scaled by \<open>2\<^sup>k\<close>, lies between \<open>2\<^sup>5\<^sup>2\<close> and \<open>2\<^sup>5\<^sup>3\<close> is
  rounded to a multiple of \<open>2\<^sup>-\<^sup>k\<close>.\<close>

lemma binary64_scaled:
  assumes lo: "2 ^ 52 \<le> \<bar>x\<bar> * 2 ^ k" and hi: "\<bar>x\<bar> * 2 ^ k < 2 ^ 53"
  shows "binary64 x = of_int (rne (x * 2 ^ k)) / 2 ^ k"
proof -
  have nz: "x \<noteq> 0" using lo by auto
  then have px: "0 < \<bar>x\<bar>" by simp
  have lg: "log 2 (\<bar>x\<bar> * 2 ^ k) = log 2 \<bar>x\<bar> + real k"
    using px by (simp add: log_mult log_nat_power)
  have "(2::real) powr 52 \<le> \<bar>x\<bar> * 2 ^ k" using lo by simp
  then have l1: "52 \<le> log 2 (\<bar>x\<bar> * 2 ^ k)" using px by (subst le_log_iff) simp_all
  have "\<bar>x\<bar> * 2 ^ k < (2::real) powr 53" using hi by simp
  then have l2: "log 2 (\<bar>x\<bar> * 2 ^ k) < 53" using px by (subst log_less_iff) simp_all
  have fl: "\<lfloor>log 2 \<bar>x\<bar>\<rfloor> = 52 - int k"
    using l1 l2 unfolding lg by (intro floor_unique) simp_all
  have u: "(2::real) powr of_int (\<lfloor>log 2 \<bar>x\<bar>\<rfloor> - 52) = 1 / 2 ^ k"
    unfolding fl by (simp add: powr_minus powr_realpow inverse_eq_divide)
  show ?thesis unfolding binary64_def Let_def u using nz by simp
qed

lemma binary64_near:
  assumes "2 ^ 52 \<le> \<bar>x\<bar> * 2 ^ k" "\<bar>x\<bar> * 2 ^ k < 2 ^ 53" "\<bar>x * 2 ^ k - of_int n\<bar> < 1 / 2"
  shows "binary64 x = of_int n / 2 ^ k"
  unfolding binary64_scaled[OF assms(1,2)] rne_near[OF assms(3)] by (rule refl)

lemma binary64_tie:
  assumes "2 ^ 52 \<le> \<bar>x\<bar> * 2 ^ k" "\<bar>x\<bar> * 2 ^ k < 2 ^ 53" "x * 2 ^ k = of_int n + 1 / 2" "even n"
  shows "binary64 x = of_int n / 2 ^ k"
  unfolding binary64_scaled[OF assms(1,2)] rne_tie[OF assms(3,4)] by (rule refl)

lemma binary64_exact:
  assumes "2 ^ 52 \<le> \<bar>x\<bar> * 2 ^ k" "\<bar>x\<bar> * 2 ^ k < 2 ^ 53" "x * 2 ^ k = of_int n"
  shows "binary64 x = x"
proof -
  have "\<bar>x * 2 ^ k - of_int n\<bar> < 1 / 2" using assms(3) by simp
  from binary64_near[OF assms(1,2) this] have "binary64 x = of_int n / 2 ^ k" .
  also have "\<dots> = x" using assms(3)[symmetric] by simp
  finally show ?thesis .
qed

lemma binary64_0: "binary64 0 = 0"
  by (simp add: binary64_def)

text \<open>Small multiples of one half are representable.\<close>

lemma binary64_1: "binary64 1 = 1"
  by (rule binary64_exact[of 1 52 "2 ^ 52"]) simp_all

lemma binary64_3_2: "binary64 (3 / 2) = 3 / 2"
  by (rule binary64_exact[of "3 / 2" 52 "3 * 2 ^ 51"]) simp_all

lemma binary64_2: "binary64 2 = 2"
  by (rule binary64_exact[of 2 51 "2 ^ 52"]) simp_all

lemma binary64_5_2: "binary64 (5 / 2) = 5 / 2"
  by (rule binary64_exact[of "5 / 2" 51 "5 * 2 ^ 50"]) simp_all

lemma binary64_3: "binary64 3 = 3"
  by (rule binary64_exact[of 3 51 "3 * 2 ^ 51"]) simp_all

lemma binary64_4: "binary64 4 = 4"
  by (rule binary64_exact[of 4 50 "2 ^ 52"]) simp_all

lemmas binary64_halves =
  binary64_0 binary64_1 binary64_3_2 binary64_2 binary64_5_2 binary64_3 binary64_4

text \<open>The values of the decimal literals.\<close>

lemma d01_val: "d01 = 7205759403792794 / 2 ^ 56"
  unfolding d01_def using binary64_near[of "1 / 10" 56 7205759403792794] by simp

lemma d04_val: "d04 = 7205759403792794 / 2 ^ 54"
  unfolding d04_def using binary64_near[of "4 / 10" 54 7205759403792794] by simp

lemma d07_val: "d07 = 6305039478318694 / 2 ^ 53"
  unfolding d07_def using binary64_near[of "7 / 10" 53 6305039478318694] by simp

lemma d14_val: "d14 = 6305039478318694 / 2 ^ 52"
  unfolding d14_def using binary64_near[of "14 / 10" 52 6305039478318694] by simp

lemma d17_val: "d17 = 7656119366529843 / 2 ^ 52"
  unfolding d17_def using binary64_near[of "17 / 10" 52 7656119366529843] by simp


section \<open>Properties of the chunk operations\<close>

subsection \<open>Auxiliary facts\<close>

lemma findIndex_None: "findIndex P xs = None \<longleftrightarrow> (\<forall>x \<in> set xs. \<not> P x)"
  by (induction xs) auto

lemma findIndex_Some:
  "findIndex P xs = Some k \<Longrightarrow>
     k < length xs \<and> P (xs ! k) \<and> (\<forall>x \<in> set (take k xs). \<not> P x)"
proof (induction xs arbitrary: k)
  case Nil
  then show ?case by simp
next
  case (Cons x xs)
  show ?case
  proof (cases "P x")
    case True
    with Cons.prems show ?thesis by simp
  next
    case False
    with Cons.prems obtain j where j: "findIndex P xs = Some j" "k = Suc j" by auto
    from Cons.IH[OF j(1)] False j(2) show ?thesis by auto
  qed
qed

lemma splice_one:
  "k < length xs \<Longrightarrow> xs = take k xs @ xs ! k # drop (Suc k) xs \<and>
     splice xs k 1 ins = take k xs @ ins @ drop (Suc k) xs"
  by (simp add: splice_def id_take_nth_drop[symmetric])

lemma splitAtPosition_fail:
  "\<not> (\<exists>c \<in> set (chunks m). splitsAt t c) \<Longrightarrow> splitAtPosition m t = (False, m)"
  using findIndex_None[of "\<lambda>c. t > start c \<and> t < endt c" "chunks m"]
  by (auto simp: splitAtPosition_def splitsAt_def)

lemma splitAtPosition_success:
  assumes "\<exists>c \<in> set (chunks m). splitsAt t c"
  shows "\<exists>pre c post. chunks m = pre @ c # post \<and> (\<forall>p \<in> set pre. \<not> splitsAt t p) \<and>
     splitsAt t c \<and>
     splitAtPosition m t =
       (True, m\<lparr>chunks := pre @ [\<lparr>start = start c, endt = t, cid = nextChunkId m\<rparr>,
                                 \<lparr>start = t, endt = endt c, cid = nextChunkId m + 1\<rparr>] @ post,
                selectedChunk := None, nextChunkId := nextChunkId m + 2\<rparr>)"
proof -
  let ?P = "\<lambda>c. t > start c \<and> t < endt c"
  from assms have "findIndex ?P (chunks m) \<noteq> None"
    by (auto simp: findIndex_None splitsAt_def)
  then obtain k where k: "findIndex ?P (chunks m) = Some k" by auto
  note fk = findIndex_Some[OF k]
  from fk have klen: "k < length (chunks m)" by simp
  note sp = splice_one[OF klen]
  let ?pre = "take k (chunks m)" and ?c = "chunks m ! k" and ?post = "drop (Suc k) (chunks m)"
  have 1: "chunks m = ?pre @ ?c # ?post" using sp by simp
  have 2: "\<forall>p \<in> set ?pre. \<not> splitsAt t p" using fk by (auto simp: splitsAt_def)
  have 3: "splitsAt t ?c" using fk by (simp add: splitsAt_def)
  have 4: "splitAtPosition m t =
     (True, m\<lparr>chunks := ?pre @ [\<lparr>start = start ?c, endt = t, cid = nextChunkId m\<rparr>,
                                \<lparr>start = t, endt = endt ?c, cid = nextChunkId m + 1\<rparr>] @ ?post,
              selectedChunk := None, nextChunkId := nextChunkId m + 2\<rparr>)"
    using k sp by (simp add: splitAtPosition_def Let_def)
  from 1 2 3 4 show ?thesis by blast
qed

lemma shiftChunk_timeShift:
  assumes "s \<le> e" "start c \<le> endt c"
  shows "shiftChunk s e c =
    (if swallowed s e c then None
     else Some (c\<lparr>start := timeShift s e (start c), endt := timeShift s e (endt c)\<rparr>))"
  using assms by (auto simp: shiftChunk_def swallowed_def timeShift_def Let_def)


lemma timeShift_mono: "s \<le> e \<Longrightarrow> x \<le> y \<Longrightarrow> timeShift s e x \<le> timeShift s e y"
  by (auto simp: timeShift_def)

lemma timeShift_strict:
  "s \<le> e \<Longrightarrow> start c < endt c \<Longrightarrow> \<not> swallowed s e c \<Longrightarrow>
   timeShift s e (start c) < timeShift s e (endt c)"
  by (auto simp: timeShift_def swallowed_def)

lemma timeShift_nonneg: "0 \<le> s \<Longrightarrow> s \<le> e \<Longrightarrow> 0 \<le> x \<Longrightarrow> 0 \<le> timeShift s e x"
  by (auto simp: timeShift_def)



lemma chunks_deleteTimeRange: "chunks (deleteTimeRange m s e) = survivors s e (chunks m)"
  by (simp add: deleteTimeRange_def survivors_def Let_def)

lemma survivors_Nil: "survivors s e [] = []"
  by (simp add: survivors_def)

lemma survivors_Cons:
  "survivors s e (c # cs) =
     (case shiftChunk s e c of None \<Rightarrow> survivors s e cs | Some d \<Rightarrow> d # survivors s e cs)"
  by (simp add: survivors_def split: option.splits)

lemma survivors_swallowed:
  "s \<le> e \<Longrightarrow> start c \<le> endt c \<Longrightarrow> swallowed s e c \<Longrightarrow>
   survivors s e (c # cs) = survivors s e cs"
  by (simp add: survivors_Cons shiftChunk_timeShift)

lemma survivors_kept:
  "s \<le> e \<Longrightarrow> start c \<le> endt c \<Longrightarrow> \<not> swallowed s e c \<Longrightarrow>
   survivors s e (c # cs) =
     c\<lparr>start := timeShift s e (start c), endt := timeShift s e (endt c)\<rparr> # survivors s e cs"
  by (simp add: survivors_Cons shiftChunk_timeShift)




lemma wellFormed_separated: "wellFormed cs = separated cs"
proof -
  have "sorted_wrt (\<lambda>c d. start c < start d \<and> (endt c \<le> start d \<or> endt d \<le> start c)) cs =
        sorted_wrt (\<lambda>c d. endt c \<le> start d) cs"
    if "\<forall>c \<in> set cs. start c < endt c"
    using that by (intro iffI; elim sorted_wrt_mono_rel[rotated]) fastforce+
  then show ?thesis unfolding wellFormed_def separated_def by blast
qed

lemma separated_Cons:
  "separated (c # cs) =
     (0 \<le> start c \<and> start c < endt c \<and> (\<forall>d \<in> set cs. endt c \<le> start d) \<and> separated cs)"
  unfolding separated_def by auto

lemma separated_le: "separated cs \<Longrightarrow> \<forall>c \<in> set cs. start c \<le> endt c"
  unfolding separated_def by fastforce

lemma survivors_set:
  assumes "s \<le> e" "\<forall>c \<in> set cs. start c \<le> endt c" "d \<in> set (survivors s e cs)"
  shows "\<exists>c \<in> set cs. \<not> swallowed s e c \<and>
     d = c\<lparr>start := timeShift s e (start c), endt := timeShift s e (endt c)\<rparr>"
  using assms(2,3)
proof (induction cs)
  case Nil
  then show ?case by (simp add: survivors_Nil)
next
  case (Cons c cs)
  then show ?case using assms(1)
    by (auto simp: survivors_Cons shiftChunk_timeShift split: if_splits)
qed

lemma survivors_separated:
  assumes "0 \<le> s" "s \<le> e"
  shows "separated cs \<Longrightarrow> separated (survivors s e cs)"
proof (induction cs)
  case Nil
  then show ?case by (simp add: survivors_Nil)
next
  case (Cons c cs)
  then have c: "0 \<le> start c" "start c < endt c" and rest: "separated cs"
    and ord: "\<forall>d \<in> set cs. endt c \<le> start d"
    by (simp_all add: separated_Cons)
  have cle: "start c \<le> endt c" using c(2) by simp
  note le = separated_le[OF rest]
  note IH = Cons.IH[OF rest]
  show ?case
  proof (cases "swallowed s e c")
    case True
    show ?thesis unfolding survivors_swallowed[OF assms(2) cle True] by (rule IH)
  next
    case False
    let ?d = "c\<lparr>start := timeShift s e (start c), endt := timeShift s e (endt c)\<rparr>"
    have d1: "0 \<le> start ?d" "start ?d < endt ?d"
      using timeShift_strict[OF assms(2) c(2) False] timeShift_nonneg[OF assms c(1)]
      by simp_all
    have d2: "\<forall>x \<in> set (survivors s e cs). endt ?d \<le> start x"
    proof
      fix x assume "x \<in> set (survivors s e cs)"
      from survivors_set[OF assms(2) le this] obtain y where
        y: "y \<in> set cs"
           "x = y\<lparr>start := timeShift s e (start y), endt := timeShift s e (endt y)\<rparr>"
        by blast
      with ord have "endt c \<le> start y" by simp
      from timeShift_mono[OF assms(2) this] y(2) show "endt ?d \<le> start x" by simp
    qed
    show ?thesis unfolding survivors_kept[OF assms(2) cle False] separated_Cons
      using IH d1 d2 by blast
  qed
qed

lemma split_separated:
  assumes "separated (pre @ c # post)" "splitsAt t c"
  shows "separated (pre @ [\<lparr>start = start c, endt = t, cid = i\<rparr>,
                            \<lparr>start = t, endt = endt c, cid = j\<rparr>] @ post)"
  using assms by (auto simp: separated_def sorted_wrt_append splitsAt_def)

subsection \<open>The delete scenario\<close>

text \<open>
  C1, as the code has it. From the chunks \<open>{0,3}\<close> and \<open>{3,10}\<close>, whatever their
  identifiers, the selected chunk and the identifier counter, \<^verbatim>\<open>deleteTimeRange(2, 5)\<close>
  yields exactly the chunks \<open>{0,2}\<close> and \<open>{2,7}\<close>, of durations 2 and 5 and of total
  covered duration 7, which is 10 - 3.
\<close>

theorem deleteTimeRange_scenario:
  "chunks (deleteTimeRange
      \<lparr>chunks = [\<lparr>start = 0, endt = 3, cid = i\<rparr>, \<lparr>start = 3, endt = 10, cid = j\<rparr>],
       selectedChunk = sel, nextChunkId = n\<rparr> 2 5) =
     [\<lparr>start = 0, endt = 2, cid = i\<rparr>, \<lparr>start = 2, endt = 7, cid = j\<rparr>] \<and>
   map chunkDuration (chunks (deleteTimeRange
      \<lparr>chunks = [\<lparr>start = 0, endt = 3, cid = i\<rparr>, \<lparr>start = 3, endt = 10, cid = j\<rparr>],
       selectedChunk = sel, nextChunkId = n\<rparr> 2 5)) = [2, 5] \<and>
   totalChunkDuration (chunks (deleteTimeRange
      \<lparr>chunks = [\<lparr>start = 0, endt = 3, cid = i\<rparr>, \<lparr>start = 3, endt = 10, cid = j\<rparr>],
       selectedChunk = sel, nextChunkId = n\<rparr> 2 5)) = 7"
  by (simp add: deleteTimeRange_def shiftChunk_def Let_def chunkDuration_def
      totalChunkDuration_def)

text \<open>
  C1, as the specification states it, fails: on the scenario's chunk list the second chunk
  does not come out as \<open>{2,8}\<close>, the durations are not 2 and 6, and the total is not 8.
\<close>

theorem deleteTimeRange_scenario_counterexample:
  "map chunkSpan (chunks (deleteTimeRange scenarioChunks 2 5)) \<noteq> [(0, 2), (2, 8)] \<and>
   map chunkDuration (chunks (deleteTimeRange scenarioChunks 2 5)) \<noteq> [2, 6] \<and>
   totalChunkDuration (chunks (deleteTimeRange scenarioChunks 2 5)) \<noteq> 8"
  by (simp add: scenarioChunks_def deleteTimeRange_def shiftChunk_def Let_def chunkSpan_def
      chunkDuration_def totalChunkDuration_def)

subsection \<open>The delete shift invariant\<close>




subsection \<open>Splitting\<close>

text \<open>
  C3. \<^verbatim>\<open>splitAtPosition(t)\<close> succeeds exactly when some chunk has \<open>start < t < end\<close>.
  On failure the state (chunk list, identifier counter, selected chunk) is unchanged. On
  success the first such chunk is replaced in place by \<open>{start, t, id1}\<close> and
  \<open>{t, end, id2}\<close>, where \<open>id1\<close> is the counter and \<open>id2\<close> the counter plus one, the
  selected chunk is cleared and the counter advances by two; when every identifier in use
  was below the counter, the two identifiers are fresh and every identifier is again below
  the counter, so that no identifier is ever reused.
\<close>

theorem splitAtPosition_spec:
  "fst (splitAtPosition m t) = (\<exists>c \<in> set (chunks m). splitsAt t c) \<and>
   (\<not> fst (splitAtPosition m t) \<longrightarrow> snd (splitAtPosition m t) = m) \<and>
   (fst (splitAtPosition m t) \<longrightarrow>
      (\<exists>pre c post. chunks m = pre @ c # post \<and> (\<forall>p \<in> set pre. \<not> splitsAt t p) \<and>
         splitsAt t c \<and>
         chunks (snd (splitAtPosition m t)) =
           pre @ [\<lparr>start = start c, endt = t, cid = nextChunkId m\<rparr>,
                  \<lparr>start = t, endt = endt c, cid = nextChunkId m + 1\<rparr>] @ post) \<and>
      selectedChunk (snd (splitAtPosition m t)) = None \<and>
      nextChunkId (snd (splitAtPosition m t)) = nextChunkId m + 2 \<and>
      ((\<forall>c \<in> set (chunks m). cid c < nextChunkId m) \<longrightarrow>
         nextChunkId m \<notin> cid ` set (chunks m) \<and>
         nextChunkId m + 1 \<notin> cid ` set (chunks m) \<and>
         (\<forall>c \<in> set (chunks (snd (splitAtPosition m t))).
            cid c < nextChunkId (snd (splitAtPosition m t)))))"
proof (cases "\<exists>c \<in> set (chunks m). splitsAt t c")
  case False
  then show ?thesis using splitAtPosition_fail[OF False] by simp
next
  case True
  from splitAtPosition_success[OF True] obtain pre c post where
    d: "chunks m = pre @ c # post" "\<forall>p \<in> set pre. \<not> splitsAt t p" "splitsAt t c"
     "splitAtPosition m t =
        (True, m\<lparr>chunks := pre @ [\<lparr>start = start c, endt = t, cid = nextChunkId m\<rparr>,
                                  \<lparr>start = t, endt = endt c, cid = nextChunkId m + 1\<rparr>] @ post,
                 selectedChunk := None, nextChunkId := nextChunkId m + 2\<rparr>)"
    by blast
  have a: "fst (splitAtPosition m t)" using d(4) by simp
  have b: "\<exists>pre c post. chunks m = pre @ c # post \<and> (\<forall>p \<in> set pre. \<not> splitsAt t p) \<and>
         splitsAt t c \<and>
         chunks (snd (splitAtPosition m t)) =
           pre @ [\<lparr>start = start c, endt = t, cid = nextChunkId m\<rparr>,
                  \<lparr>start = t, endt = endt c, cid = nextChunkId m + 1\<rparr>] @ post"
    using d by (intro exI[of _ pre] exI[of _ c] exI[of _ post]) simp
  have c: "selectedChunk (snd (splitAtPosition m t)) = None"
    "nextChunkId (snd (splitAtPosition m t)) = nextChunkId m + 2"
    using d(4) by simp_all
  have e: "(\<forall>c \<in> set (chunks m). cid c < nextChunkId m) \<longrightarrow>
         nextChunkId m \<notin> cid ` set (chunks m) \<and>
         nextChunkId m + 1 \<notin> cid ` set (chunks m) \<and>
         (\<forall>c \<in> set (chunks (snd (splitAtPosition m t))).
            cid c < nextChunkId (snd (splitAtPosition m t)))"
  proof
    assume old: "\<forall>c \<in> set (chunks m). cid c < nextChunkId m"
    then have fresh: "nextChunkId m \<notin> cid ` set (chunks m)"
      "nextChunkId m + 1 \<notin> cid ` set (chunks m)"
      by fastforce+
    have "cid x < nextChunkId m + 2"
      if "x \<in> set (pre @ [\<lparr>start = start c, endt = t, cid = nextChunkId m\<rparr>,
         \<lparr>start = t, endt = endt c, cid = nextChunkId m + 1\<rparr>] @ post)" for x
    proof -
      from that consider "x \<in> set (chunks m)" | "cid x = nextChunkId m"
        | "cid x = nextChunkId m + 1"
        unfolding d(1) by auto
      then show ?thesis using old by cases (fastforce simp: less_Suc_eq)+
    qed
    with fresh show "nextChunkId m \<notin> cid ` set (chunks m) \<and>
         nextChunkId m + 1 \<notin> cid ` set (chunks m) \<and>
         (\<forall>c \<in> set (chunks (snd (splitAtPosition m t))).
            cid c < nextChunkId (snd (splitAtPosition m t)))"
      unfolding d(4) by simp
  qed
  from True a b c e show ?thesis by simp
qed


text \<open>
  Witness for C3, the split scenario: the single chunk \<open>{0,10,0}\<close> contains the time 3, so
  the split succeeds, gives \<open>{0,3,1}\<close> and \<open>{3,10,2}\<close>, clears the selected chunk and
  leaves the counter at 3; a second split at 3 finds no chunk and fails.
\<close>

theorem splitAtPosition_spec_witness:
  "(\<exists>c \<in> set (chunks (initializeChunks 10)). splitsAt 3 c) \<and>
   map cid (chunks (initializeChunks 10)) = [0] \<and> nextChunkId (initializeChunks 10) = 1 \<and>
   fst (splitAtPosition (initializeChunks 10) 3) \<and>
   selectedChunk (snd (splitAtPosition (initializeChunks 10) 3)) = None \<and>
   nextChunkId (snd (splitAtPosition (initializeChunks 10) 3)) = 3 \<and>
   list_all (\<lambda>c. cid c < 3) (chunks (snd (splitAtPosition (initializeChunks 10) 3))) \<and>
   chunks (snd (splitAtPosition (initializeChunks 10) 3)) =
     [\<lparr>start = 0, endt = 3, cid = 1\<rparr>, \<lparr>start = 3, endt = 10, cid = 2\<rparr>] \<and>
   \<not> fst (splitAtPosition (snd (splitAtPosition (initializeChunks 10) 3)) 3)"
proof -
  let ?m = "initializeChunks 10"
  have ex: "\<exists>c \<in> set (chunks ?m). splitsAt 3 c"
    and below: "\<forall>c \<in> set (chunks ?m). cid c < nextChunkId ?m"
    and counter: "nextChunkId ?m = 1" and ids0: "map cid (chunks ?m) = [0]"
    by (simp_all add: initializeChunks_def splitsAt_def)
  note spec = splitAtPosition_spec[of ?m 3]
  from spec ex have ok: "fst (splitAtPosition ?m 3)" by blast
  from spec ok have sel: "selectedChunk (snd (splitAtPosition ?m 3)) = None"
    and nxt: "nextChunkId (snd (splitAtPosition ?m 3)) = nextChunkId ?m + 2"
    by blast+
  from spec ok below have
    "\<forall>c \<in> set (chunks (snd (splitAtPosition ?m 3))).
       cid c < nextChunkId (snd (splitAtPosition ?m 3))"
    by blast
  then have ids: "list_all (\<lambda>c. cid c < 3) (chunks (snd (splitAtPosition ?m 3)))"
    unfolding nxt counter by (simp add: list_all_iff numeral_3_eq_3)
  have cs: "chunks (snd (splitAtPosition ?m 3)) =
     [\<lparr>start = 0, endt = 3, cid = 1\<rparr>, \<lparr>start = 3, endt = 10, cid = 2\<rparr>]"
    by (simp add: initializeChunks_def splitAtPosition_def splice_def)
  have "\<not> (\<exists>c \<in> set (chunks (snd (splitAtPosition ?m 3))). splitsAt 3 c)"
    unfolding cs by (simp add: splitsAt_def)
  with splitAtPosition_spec[of "snd (splitAtPosition ?m 3)" 3]
  have again: "\<not> fst (splitAtPosition (snd (splitAtPosition ?m 3)) 3)" by blast
  from ex ok sel nxt ids cs again counter ids0 show ?thesis by simp
qed

subsection \<open>Well-formedness in exact arithmetic\<close>

text \<open>
  In exact arithmetic well-formedness is preserved: if every chunk satisfies
  \<open>0 \<le> start < end\<close> and the list is in increasing time order with pairwise
  non-overlapping intervals, then the same holds of the chunk list after any
  \<^verbatim>\<open>splitAtPosition(t)\<close>, and after any \<^verbatim>\<open>deleteTimeRange(s, e)\<close> with \<open>0 \<le> s \<le> e\<close>
  whose subtractions are exact.
\<close>

lemma wellFormed_preserved_exact:
  assumes "wellFormed (chunks m)"
  shows "wellFormed (chunks (snd (splitAtPosition m t))) \<and>
         (0 \<le> s \<and> s \<le> e \<longrightarrow> wellFormed (chunks (deleteTimeRange m s e)))"
proof -
  have sep: "separated (chunks m)" using assms by (simp add: wellFormed_separated)
  have "separated (chunks (snd (splitAtPosition m t)))"
  proof (cases "\<exists>c \<in> set (chunks m). splitsAt t c")
    case False
    then show ?thesis using splitAtPosition_fail[OF False] sep by simp
  next
    case True
    from splitAtPosition_success[OF True] obtain pre c post where
      d: "chunks m = pre @ c # post" "splitsAt t c"
       "splitAtPosition m t =
          (True, m\<lparr>chunks := pre @ [\<lparr>start = start c, endt = t, cid = nextChunkId m\<rparr>,
                                    \<lparr>start = t, endt = endt c, cid = nextChunkId m + 1\<rparr>] @ post,
                   selectedChunk := None, nextChunkId := nextChunkId m + 2\<rparr>)"
      by blast
    from split_separated[of pre c post t] sep d(1,2) show ?thesis unfolding d(3) by simp
  qed
  moreover have "separated (chunks (deleteTimeRange m s e))" if "0 \<le> s" "s \<le> e"
    using survivors_separated[OF that sep] by (simp add: chunks_deleteTimeRange)
  ultimately show ?thesis by (simp add: wellFormed_separated)
qed

subsection \<open>Deletion in binary64 arithmetic\<close>

lemma drift_duration: "dsub d07 d01 = 5404319552844595 / 2 ^ 53"
  using binary64_near[of "6305039478318694 / 2 ^ 53 - 7205759403792794 / 2 ^ 56" 53 5404319552844595]
  by (simp add: dsub_def d01_val d07_val)

lemma drift_start: "dsub d07 (5404319552844595 / 2 ^ 53) = 7205759403792792 / 2 ^ 56"
  using binary64_exact[of "6305039478318694 / 2 ^ 53 - 5404319552844595 / 2 ^ 53" 56 7205759403792792]
  by (simp add: dsub_def d07_val)

lemma drift_end: "dsub d14 (5404319552844595 / 2 ^ 53) = 7205759403792793 / 2 ^ 53"
  using binary64_exact[of "6305039478318694 / 2 ^ 52 - 5404319552844595 / 2 ^ 53" 53 7205759403792793]
  by (simp add: dsub_def d14_val)

lemma drift_order: "0 < d01" "d01 < d07" "d07 < d14"
  by (simp_all add: d01_val d07_val d14_val)

lemma shiftChunk64_after:
  "endTime \<le> start c \<Longrightarrow>
     shiftChunk64 startTime endTime c =
       Some (c\<lparr>start := dsub (start c) (dsub endTime startTime),
               endt := dsub (endt c) (dsub endTime startTime)\<rparr>)"
  by (simp add: shiftChunk64_def Let_def)

lemma drift_first: "shiftChunk64 d01 d07 \<lparr>start = 0, endt = d01, cid = i\<rparr> =
    Some \<lparr>start = 0, endt = d01, cid = i\<rparr>"
  using drift_order by (simp add: shiftChunk64_def Let_def)

lemma drift_second: "shiftChunk64 d01 d07 \<lparr>start = d01, endt = d07, cid = i\<rparr> = None"
  using drift_order by (simp add: shiftChunk64_def Let_def)

lemma drift_third: "shiftChunk64 d01 d07 \<lparr>start = d07, endt = d14, cid = i\<rparr> =
    Some \<lparr>start = 7205759403792792 / 2 ^ 56, endt = 7205759403792793 / 2 ^ 53, cid = i\<rparr>"
proof -
  have "d07 \<le> start \<lparr>start = d07, endt = d14, cid = i\<rparr>" by simp
  from shiftChunk64_after[OF this, of d01] show ?thesis
    by (simp only: chunk.simps drift_duration drift_start drift_end)
qed

lemma drift_chunks:
  "chunks (deleteTimeRange64 driftManager d01 d07) =
     [\<lparr>start = 0, endt = d01, cid = 1\<rparr>,
      \<lparr>start = 7205759403792792 / 2 ^ 56, endt = 7205759403792793 / 2 ^ 53, cid = 3\<rparr>]"
  by (simp add: deleteTimeRange64_def driftManager_def Let_def drift_first drift_second
      drift_third)

text \<open>
  C4. In exact arithmetic the invariant holds (\<open>wellFormed_preserved_exact\<close>), and
  \<^verbatim>\<open>splitAtPosition\<close>, which only compares and copies times, preserves it in any
  arithmetic. \<^verbatim>\<open>deleteTimeRange\<close> as the engine computes it does not: the buffer of 1.4 s
  split at 0.1 s and 0.7 s is well formed; deleting its middle chunk, the range from 0.1
  to 0.7, leaves the first chunk ending at 0.1 and moves the third to start at
  \<open>0.7 - (0.7 - 0.1)\<close>, which in binary64 is 0.09999999999999998, below 0.1: the two
  remaining chunks overlap and the list is no longer well formed.
\<close>

theorem deleteTimeRange64_overlap:
  "wellFormed (chunks driftManager) \<and> 0 \<le> d01 \<and> d01 \<le> d07 \<and>
   chunks (deleteTimeRange64 driftManager d01 d07) =
     [\<lparr>start = 0, endt = d01, cid = 1\<rparr>,
      \<lparr>start = 7205759403792792 / 2 ^ 56, endt = 7205759403792793 / 2 ^ 53, cid = 3\<rparr>] \<and>
   7205759403792792 / 2 ^ 56 < d01 \<and>
   \<not> wellFormed (chunks (deleteTimeRange64 driftManager d01 d07))"
proof -
  have a: "wellFormed (chunks driftManager)"
    by (simp add: driftManager_def wellFormed_def d01_val d07_val d14_val)
  have b: "7205759403792792 / 2 ^ 56 < d01" by (simp add: d01_val)
  have c: "\<not> wellFormed (chunks (deleteTimeRange64 driftManager d01 d07))"
    unfolding drift_chunks by (simp add: wellFormed_def d01_val)
  from a b c drift_chunks drift_order show ?thesis by simp
qed

text \<open>Witness for C4: after the deletion the second chunk starts before the first ends.\<close>

theorem deleteTimeRange64_overlap_witness:
  "start (chunks (deleteTimeRange64 driftManager d01 d07) ! 1) <
   endt (chunks (deleteTimeRange64 driftManager d01 d07) ! 0)"
  using deleteTimeRange64_overlap by simp


section \<open>Properties of the sample buffer operations\<close>

subsection \<open>Loops and typed arrays\<close>

lemma forLoop_stop: "\<not> a < n \<Longrightarrow> forLoop a n body s = s"
  by (simp add: forLoop.simps)

lemma forLoop_step: "a < n \<Longrightarrow> forLoop a n body s = forLoop (a + 1) n body (body a s)"
  by (subst forLoop.simps) simp

lemma forLoop_length:
  assumes "\<And>i nd. length (body i nd) = length nd"
  shows "length (forLoop a n body nd) = length nd"
proof (induction "nat (n - a)" arbitrary: a nd)
  case 0
  then show ?case by (simp add: forLoop_stop)
next
  case (Suc m)
  then have lt: "a < n" and m: "m = nat (n - (a + 1))" by linarith+
  show ?case using Suc.hyps(1)[OF m, of "body a nd"] assms by (simp add: forLoop_step[OF lt])
qed

text \<open>A loop whose pass \<open>i\<close> touches only position \<open>i + d\<close> of the array.\<close>

lemma forLoop_pointwise:
  assumes len: "\<And>i nd. length (body i nd) = length nd"
    and other: "\<And>i nd k. k < length nd \<Longrightarrow> int k \<noteq> i + d \<Longrightarrow> body i nd ! k = nd ! k"
    and hit: "\<And>i nd k. k < length nd \<Longrightarrow> int k = i + d \<Longrightarrow> body i nd ! k = h i (nd ! k)"
  shows "k < length nd \<Longrightarrow>
     forLoop a n body nd ! k =
       (if a \<le> int k - d \<and> int k - d < n then h (int k - d) (nd ! k) else nd ! k)"
proof (induction "nat (n - a)" arbitrary: a nd)
  case 0
  then show ?case by (auto simp: forLoop_stop)
next
  case (Suc m)
  then have lt: "a < n" and m: "m = nat (n - (a + 1))" by linarith+
  have k: "k < length (body a nd)" using Suc.prems len by simp
  note IH = Suc.hyps(1)[OF m k]
  show ?case
  proof (cases "int k = a + d")
    case True
    then show ?thesis using IH hit[OF Suc.prems True] lt by (simp add: forLoop_step[OF lt])
  next
    case False
    then show ?thesis using IH other[OF Suc.prems False] by (auto simp: forLoop_step[OF lt])
  qed
qed

lemma ta_write_length: "length (ta_write xs i v) = length xs"
  by (simp add: ta_write_def)

lemma ta_write_nth:
  "k < length xs \<Longrightarrow> ta_write xs i v ! k = (if int k = i then v else xs ! k)"
  by (auto simp: ta_write_def)

lemma eachChannel_prefix:
  "n \<le> length cd \<Longrightarrow>
   fold (\<lambda>channel cd. cd[channel := body channel (cd ! channel)]) [0..<n] cd =
     map (\<lambda>k. body k (cd ! k)) [0..<n] @ drop n cd"
proof (induction n)
  case 0 then show ?case by simp
next
  case (Suc n)
  then have n: "n < length cd" by simp
  have "(map (\<lambda>k. body k (cd ! k)) [0..<n] @ drop n cd)[n := v] =
        map (\<lambda>k. body k (cd ! k)) [0..<n] @ v # drop (Suc n) cd" for v
    using n by (simp add: list_update_append Cons_nth_drop_Suc[symmetric])
  moreover have "(map (\<lambda>k. body k (cd ! k)) [0..<n] @ drop n cd) ! n = cd ! n"
    using n by (simp add: nth_append)
  ultimately show ?case using Suc.IH n by simp
qed

lemma eachChannel_map:
  "length cd = channels \<Longrightarrow> eachChannel channels body cd = map (\<lambda>k. body k (cd ! k)) [0..<channels]"
  by (simp add: eachChannel_def eachChannel_prefix)

lemma eachChannel_nth:
  "length cd = channels \<Longrightarrow> k < channels \<Longrightarrow> eachChannel channels body cd ! k = body k (cd ! k)"
  by (simp add: eachChannel_map)

lemma eachChannel_length:
  "length cd = channels \<Longrightarrow> length (eachChannel channels body cd) = channels"
  by (simp add: eachChannel_map)

lemma num_sampleAt: "0 \<le> i \<Longrightarrow> i < int (length xs) \<Longrightarrow> num (sampleAt xs i) = xs ! nat i"
  by (simp add: num_def sampleAt_def)

lemma deleteCopy_result:
  assumes "0 \<le> s" "s \<le> e" "e \<le> int (length old)"
  shows "deleteCopy s e old (replicate (nat (int (length old) - (e - s))) 0) =
         take (nat s) old @ drop (nat e) old"
proof (rule nth_equalityI)
  let ?new = "replicate (nat (int (length old) - (e - s))) (0::real)"
  let ?b1 = "\<lambda>i nd. ta_write nd i (num (sampleAt old i))"
  let ?b2 = "\<lambda>i nd. ta_write nd (i - (e - s)) (num (sampleAt old i))"
  let ?nd1 = "forLoop 0 s ?b1 ?new"
  let ?nd2 = "forLoop e (int (length old)) ?b2 ?nd1"
  have dc: "deleteCopy s e old ?new = ?nd2"
    by (simp add: deleteCopy_def Let_def)
  have l1: "length ?nd1 = length ?new"
    by (rule forLoop_length) (simp add: ta_write_length)
  have l2: "length ?nd2 = length ?nd1"
    by (rule forLoop_length) (simp add: ta_write_length)
  show len: "length (deleteCopy s e old ?new) = length (take (nat s) old @ drop (nat e) old)"
    unfolding dc using assms l1 l2 by simp
  fix k assume "k < length (deleteCopy s e old ?new)"
  then have k: "k < length ?new" unfolding dc using l1 l2 by simp
  then have kb: "int k + (e - s) < int (length old)" by simp
  have "?nd1 ! k = (if 0 \<le> int k - 0 \<and> int k - 0 < s then (\<lambda>i x. num (sampleAt old i)) (int k - 0) (?new ! k) else ?new ! k)"
    by (rule forLoop_pointwise[where d = 0]) (use k in \<open>simp_all add: ta_write_length ta_write_nth\<close>)
  then have n1: "?nd1 ! k = (if int k < s then old ! k else 0)"
    using k kb assms by (simp add: num_sampleAt)
  have k1: "k < length ?nd1" using k l1 by simp
  have raw: "?nd2 ! k =
     (if e \<le> int k - (- (e - s)) \<and> int k - (- (e - s)) < int (length old)
      then (\<lambda>i x. num (sampleAt old i)) (int k - (- (e - s))) (?nd1 ! k) else ?nd1 ! k)"
    by (rule forLoop_pointwise[where d = "- (e - s)"]) (use k1 in \<open>simp_all add: ta_write_length ta_write_nth\<close>)
  have eq: "int k - (- (e - s)) = int k + (e - s)" by simp
  have cond: "(e \<le> int k + (e - s) \<and> int k + (e - s) < int (length old)) = (s \<le> int k)"
    using kb by auto
  have n2: "?nd2 ! k = (if s \<le> int k then old ! nat (int k + (e - s)) else ?nd1 ! k)"
  proof (cases "s \<le> int k")
    case True
    have "num (sampleAt old (int k + (e - s))) = old ! nat (int k + (e - s))"
      by (rule num_sampleAt) (use True kb assms in linarith)+
    with raw[unfolded eq cond] True show ?thesis by simp
  next
    case False
    with raw[unfolded eq cond] show ?thesis by simp
  qed
  show "deleteCopy s e old ?new ! k = (take (nat s) old @ drop (nat e) old) ! k"
  proof (cases "int k < s")
    case True
    then have "k < nat s" "k < length old" using assms by linarith+
    then show ?thesis unfolding dc using n1 n2 True by (simp add: nth_append)
  next
    case False
    then have a: "\<not> k < nat s" "nat (int k + (e - s)) = nat e + (k - nat s)"
      using assms kb by linarith+
    have b: "length (take (nat s) old) = nat s" "nat e \<le> length old"
      using assms by simp_all
    have "(take (nat s) old @ drop (nat e) old) ! k = drop (nat e) old ! (k - nat s)"
      using a(1) b(1) by (simp add: nth_append)
    also have "\<dots> = old ! (nat e + (k - nat s))"
      using b(2) by (rule nth_drop)
    finally have rhs: "(take (nat s) old @ drop (nat e) old) ! k = old ! (nat e + (k - nat s))" .
    have lhs: "deleteCopy s e old ?new ! k = old ! nat (int k + (e - s))"
      unfolding dc using n2 False by simp
    show ?thesis unfolding lhs rhs a(2) by (rule refl)
  qed
qed


subsection \<open>Deleting a range of frames\<close>

lemma createBuffer_ok:
  "0 < channels \<Longrightarrow> 0 < len \<Longrightarrow>
   createBuffer channels len rate =
     Inr \<lparr>sampleRate = rate, blength = nat len,
          channelData = replicate channels (replicate (nat len) 0)\<rparr>"
  by (simp add: createBuffer_def)

lemma map_index: "map (\<lambda>k. f (xs ! k)) [0..<length xs] = map f xs"
  by (rule nth_equalityI) simp_all

lemma validBuffer_channel:
  "validBuffer b \<Longrightarrow> k < numberOfChannels b \<Longrightarrow> length (channelData b ! k) = blength b"
  by (simp add: validBuffer_def numberOfChannels_def)

lemma deleteAudioRange_unfold:
  assumes ab: "audioBuffer ed = Some b" and vb: "validBuffer b"
    and lo: "0 \<le> toSample b startTime" and mid: "toSample b startTime \<le> toSample b endTime"
    and hi: "toSample b endTime \<le> int (blength b)"
    and some: "toSample b endTime - toSample b startTime < int (blength b)"
  shows "deleteAudioRange ed startTime endTime =
     Inr (ed\<lparr>audioBuffer := Some \<lparr>sampleRate = sampleRate b,
                 blength = nat (int (blength b) - (toSample b endTime - toSample b startTime)),
                 channelData = map (\<lambda>old. take (nat (toSample b startTime)) old @
                                            drop (nat (toSample b endTime)) old) (channelData b)\<rparr>,
              chunkManager := deleteTimeRange (chunkManager ed) startTime endTime,
              pausedAtTime := remapPaused startTime endTime (pausedAtTime ed),
              seekPosition := remapPaused startTime endTime (pausedAtTime ed)\<rparr>)"
proof -
  let ?s = "toSample b startTime" and ?e = "toSample b endTime"
  let ?n = "int (blength b) - (?e - ?s)"
  let ?c = "numberOfChannels b"
  have c: "0 < ?c" using vb by (simp add: validBuffer_def numberOfChannels_def)
  have n: "0 < ?n" using some by simp
  note cb = createBuffer_ok[OF c n, of "sampleRate b"]
  have "eachChannel ?c (\<lambda>channel newData. deleteCopy ?s ?e (channelData b ! channel) newData)
          (replicate ?c (replicate (nat ?n) 0)) =
        map (\<lambda>k. deleteCopy ?s ?e (channelData b ! k) (replicate (nat ?n) 0)) [0..<?c]"
    by (simp add: eachChannel_map cong: map_cong)
  also have "\<dots> = map (\<lambda>k. (\<lambda>old. take (nat ?s) old @ drop (nat ?e) old) (channelData b ! k)) [0..<?c]"
  proof (rule map_cong[OF refl])
    fix k assume "k \<in> set [0..<?c]"
    then have len: "length (channelData b ! k) = blength b"
      using validBuffer_channel[OF vb] by simp
    show "deleteCopy ?s ?e (channelData b ! k) (replicate (nat ?n) 0) =
          (\<lambda>old. take (nat ?s) old @ drop (nat ?e) old) (channelData b ! k)"
      using deleteCopy_result[of ?s ?e "channelData b ! k"] lo mid hi len by simp
  qed
  also have "\<dots> = map (\<lambda>old. take (nat ?s) old @ drop (nat ?e) old) (channelData b)"
    unfolding numberOfChannels_def by (rule map_index)
  finally have fill: "eachChannel ?c (\<lambda>channel newData. deleteCopy ?s ?e (channelData b ! channel) newData)
          (replicate ?c (replicate (nat ?n) 0)) =
       map (\<lambda>old. take (nat ?s) old @ drop (nat ?e) old) (channelData b)" .
  show ?thesis
    using cb fill ab by (simp add: deleteAudioRange_def Let_def toSample_def)
qed





subsection \<open>The resume position after a deletion\<close>

lemma deleteAudioRange_cases:
  assumes "audioBuffer ed = Some b"
  shows "(\<exists>err. deleteAudioRange ed s e = Inl err) \<or>
     (\<exists>nb. deleteAudioRange ed s e =
        Inr (ed\<lparr>audioBuffer := Some nb,
                chunkManager := deleteTimeRange (chunkManager ed) s e,
                pausedAtTime := remapPaused s e (pausedAtTime ed),
                seekPosition := remapPaused s e (pausedAtTime ed)\<rparr>))"
  using assms by (auto simp: deleteAudioRange_def Let_def split: sum.splits)

text \<open>
  C10. When \<^verbatim>\<open>deleteAudioRange(startTime, endTime)\<close> with \<open>startTime \<le> endTime\<close> completes on
  a loaded buffer, the resume position is remapped: a position inside
  \<open>[startTime, endTime]\<close> becomes \<open>startTime\<close>, a position after \<open>endTime\<close> decreases by
  exactly \<open>endTime - startTime\<close>, a position before \<open>startTime\<close> is unchanged; and the seek
  position equals the resulting resume position.
\<close>

theorem deleteAudioRange_resume_position:
  assumes "audioBuffer ed = Some b" "startTime \<le> endTime"
    and "deleteAudioRange ed startTime endTime = Inr ed'"
  shows "(startTime \<le> pausedAtTime ed \<and> pausedAtTime ed \<le> endTime \<longrightarrow> pausedAtTime ed' = startTime) \<and>
         (endTime < pausedAtTime ed \<longrightarrow> pausedAtTime ed' = pausedAtTime ed - (endTime - startTime)) \<and>
         (pausedAtTime ed < startTime \<longrightarrow> pausedAtTime ed' = pausedAtTime ed) \<and>
         seekPosition ed' = pausedAtTime ed'"
proof -
  from deleteAudioRange_cases[OF assms(1), of startTime endTime] assms(3)
  have p: "pausedAtTime ed' = remapPaused startTime endTime (pausedAtTime ed)"
    and q: "seekPosition ed' = remapPaused startTime endTime (pausedAtTime ed)"
    by auto
  show ?thesis unfolding p q using assms(2) by (simp add: remapPaused_def Let_def)
qed


text \<open>
  Witness for C10: in the example editor the resume position is 3; deleting the range from
  1 to 2 completes and moves both the resume position and the seek position to 2.
\<close>

theorem deleteAudioRange_resume_position_witness:
  "audioBuffer exampleEditor = Some exampleBuffer \<and> (1::real) \<le> 2 \<and>
   pausedAtTime exampleEditor = 3 \<and>
   (\<exists>ed'. deleteAudioRange exampleEditor 1 2 = Inr ed' \<and>
      pausedAtTime ed' = 2 \<and> seekPosition ed' = 2)"
proof -
  have s1: "toSample exampleBuffer 1 = 1" and s2: "toSample exampleBuffer 2 = 2"
    by (simp_all add: toSample_def exampleBuffer_def)
  have h: "audioBuffer exampleEditor = Some exampleBuffer" "validBuffer exampleBuffer"
    "0 \<le> toSample exampleBuffer 1" "toSample exampleBuffer 1 \<le> toSample exampleBuffer 2"
    "toSample exampleBuffer 2 \<le> int (blength exampleBuffer)"
    "toSample exampleBuffer 2 - toSample exampleBuffer 1 < int (blength exampleBuffer)"
    unfolding s1 s2 by (simp_all add: exampleEditor_def exampleBuffer_def validBuffer_def)
  from deleteAudioRange_unfold[OF h] obtain ed' where
    r: "deleteAudioRange exampleEditor 1 2 = Inr ed'" by blast
  have p: "pausedAtTime exampleEditor = 3" by (simp add: exampleEditor_def)
  from deleteAudioRange_resume_position[OF h(1) _ r] p
  have "pausedAtTime ed' = 2" "seekPosition ed' = 2" by simp_all
  with h(1) r p show ?thesis by simp
qed

section \<open>Properties of the fade\<close>

lemma copyAll_result: "length new = length old \<Longrightarrow> copyAll old new = old"
proof (rule nth_equalityI)
  assume l: "length new = length old"
  let ?b = "\<lambda>i nd. ta_write nd i (num (sampleAt old i))"
  have len: "length (copyAll old new) = length new"
    unfolding copyAll_def by (rule forLoop_length) (simp add: ta_write_length)
  then show "length (copyAll old new) = length old" using l by simp
  fix k assume "k < length (copyAll old new)"
  then have k: "k < length new" using len by simp
  have "forLoop 0 (int (length old)) ?b new ! k =
     (if 0 \<le> int k - 0 \<and> int k - 0 < int (length old)
      then (\<lambda>i x. num (sampleAt old i)) (int k - 0) (new ! k) else new ! k)"
    by (rule forLoop_pointwise[where d = 0]) (use k in \<open>simp_all add: ta_write_length ta_write_nth\<close>)
  then show "copyAll old new ! k = old ! k"
    using k l by (simp add: copyAll_def num_sampleAt)
qed

lemma fadeCopy_result:
  assumes l: "length new = length old"
  shows "length (fadeCopy ty s e old new) = length old"
    and "k < length old \<Longrightarrow> fadeCopy ty s e old new ! k =
       (if s \<le> int k \<and> int k < e then old ! k * fadeMultiplier ty s (e - s) (int k) else old ! k)"
proof -
  let ?b = "\<lambda>i nd. ta_write nd i (num (sampleAt old i) * fadeMultiplier ty s (e - s) i)"
  have fc: "fadeCopy ty s e old new = forLoop s e ?b old"
    by (simp add: fadeCopy_def Let_def copyAll_result[OF l])
  show "length (fadeCopy ty s e old new) = length old"
    unfolding fc by (rule forLoop_length) (simp add: ta_write_length)
  assume k: "k < length old"
  have "forLoop s e ?b old ! k =
     (if s \<le> int k - 0 \<and> int k - 0 < e
      then (\<lambda>i x. num (sampleAt old i) * fadeMultiplier ty s (e - s) i) (int k - 0) (old ! k)
      else old ! k)"
    by (rule forLoop_pointwise[where d = 0]) (use k in \<open>simp_all add: ta_write_length ta_write_nth\<close>)
  then show "fadeCopy ty s e old new ! k =
       (if s \<le> int k \<and> int k < e then old ! k * fadeMultiplier ty s (e - s) (int k) else old ! k)"
    unfolding fc using k by (simp add: num_sampleAt)
qed

lemma fadeMultiplier_in: "fadeMultiplier ''in'' s (e - s) i = cosineEase (fadeProgress s e i)"
  by (simp add: fadeMultiplier_def cosineEase_def fadeProgress_def Let_def)

lemma fadeMultiplier_out: "ty \<noteq> ''in'' \<Longrightarrow> fadeMultiplier ty s (e - s) i = cosineEase (1 - fadeProgress s e i)"
  by (simp add: fadeMultiplier_def cosineEase_def fadeProgress_def Let_def)

lemma cosineEase_0: "cosineEase 0 = 0" by (simp add: cosineEase_def)
lemma cosineEase_1: "cosineEase 1 = 1" by (simp add: cosineEase_def)

lemma cosineEase_small: "0 \<le> cosineEase x \<and> cosineEase x \<le> (x * pi / 2)\<^sup>2"
proof -
  have "cos (x * pi) = 1 - 2 * (sin (x * pi / 2))\<^sup>2"
    using cos_double_sin[of "x * pi / 2"] by simp
  then have e: "cosineEase x = (sin (x * pi / 2))\<^sup>2" by (simp add: cosineEase_def)
  have "\<bar>sin (x * pi / 2)\<bar> \<le> \<bar>x * pi / 2\<bar>" by (rule abs_sin_x_le_abs_x)
  then have "(sin (x * pi / 2))\<^sup>2 \<le> (x * pi / 2)\<^sup>2" by (rule abs_le_square_iff[THEN iffD1])
  then show ?thesis unfolding e by simp
qed

lemma cosineEase_complement: "cosineEase (1 - x) = 1 - cosineEase x"
proof -
  have "cos ((1 - x) * pi) = cos (pi - x * pi)" by (simp add: algebra_simps)
  then have c: "cos ((1 - x) * pi) = - cos (x * pi)" by simp
  show ?thesis unfolding cosineEase_def c by (simp add: algebra_simps)
qed

lemma fadeProgress_start: "fadeProgress s e s = 0" by (simp add: fadeProgress_def)

lemma fadeProgress_last: "s < e \<Longrightarrow> fadeProgress s e (e - 1) = 1 - 1 / real_of_int (e - s)"
  by (simp add: fadeProgress_def field_simps)


lemma applyFadeEffect_unfold:
  assumes ab: "audioBuffer ed = Some b" and vb: "validBuffer b"
  shows "applyFadeEffect ed startTime endTime ty =
     Inr (ed\<lparr>audioBuffer := Some \<lparr>sampleRate = sampleRate b, blength = blength b,
                 channelData = map (\<lambda>k. fadeCopy ty (toSample b startTime) (toSample b endTime)
                                       (channelData b ! k) (replicate (blength b) 0))
                                 [0..<numberOfChannels b]\<rparr>,
              selection := (0, 0),
              chunkManager := (chunkManager ed)\<lparr>selectedChunk := None\<rparr>\<rparr>)"
proof -
  let ?c = "numberOfChannels b"
  have c: "0 < ?c" and n: "0 < int (blength b)"
    using vb by (simp_all add: validBuffer_def numberOfChannels_def)
  note cb = createBuffer_ok[OF c n, of "sampleRate b"]
  show ?thesis
    using cb ab by (simp add: applyFadeEffect_def Let_def toSample_def eachChannel_map)
qed

lemma fade_length:
  assumes vb: "validBuffer b" and ch: "ch < numberOfChannels b"
  shows "length (map (\<lambda>k. fadeCopy ty s e (channelData b ! k) (replicate (blength b) 0))
           [0..<numberOfChannels b] ! ch) = blength b"
proof -
  have len: "length (channelData b ! ch) = blength b" using validBuffer_channel[OF vb ch] .
  then have l: "length (replicate (blength b) (0::real)) = length (channelData b ! ch)" by simp
  show ?thesis using fadeCopy_result(1)[OF l, of ty s e] ch len by simp
qed

lemma fade_sample:
  assumes vb: "validBuffer b" and ch: "ch < numberOfChannels b" and i: "i < blength b"
  shows "map (\<lambda>k. fadeCopy ty s e (channelData b ! k) (replicate (blength b) 0))
           [0..<numberOfChannels b] ! ch ! i =
         (if s \<le> int i \<and> int i < e
          then channelData b ! ch ! i * fadeMultiplier ty s (e - s) (int i)
          else channelData b ! ch ! i)"
proof -
  have len: "length (channelData b ! ch) = blength b" using validBuffer_channel[OF vb ch] .
  then have l: "length (replicate (blength b) (0::real)) = length (channelData b ! ch)" by simp
  show ?thesis using fadeCopy_result(2)[OF l, of i ty s e] ch i len by simp
qed

lemma ease_last_in:
  assumes "s < e"
  shows "\<bar>x * cosineEase (fadeProgress s e (e - 1)) - x\<bar> \<le> \<bar>x\<bar> * (pi / (2 * real_of_int (e - s)))\<^sup>2"
proof -
  let ?n = "real_of_int (e - s)"
  have "cosineEase (fadeProgress s e (e - 1)) = 1 - cosineEase (1 / ?n)"
    unfolding fadeProgress_last[OF assms] by (rule cosineEase_complement)
  moreover have "x * (1 - cosineEase (1 / ?n)) - x = - (x * cosineEase (1 / ?n))"
    by (simp add: right_diff_distrib)
  ultimately have "x * cosineEase (fadeProgress s e (e - 1)) - x = - (x * cosineEase (1 / ?n))"
    by simp
  then have "\<bar>x * cosineEase (fadeProgress s e (e - 1)) - x\<bar> = \<bar>x\<bar> * cosineEase (1 / ?n)"
    using cosineEase_small[of "1 / ?n"] by (simp add: abs_mult)
  also have "\<dots> \<le> \<bar>x\<bar> * (1 / ?n * pi / 2)\<^sup>2"
    using cosineEase_small[of "1 / ?n"] by (simp add: mult_left_mono)
  also have "(1 / ?n * pi / 2) = pi / (2 * ?n)" by simp
  finally show ?thesis .
qed

lemma ease_last_out:
  assumes "s < e"
  shows "\<bar>x * cosineEase (1 - fadeProgress s e (e - 1))\<bar> \<le> \<bar>x\<bar> * (pi / (2 * real_of_int (e - s)))\<^sup>2"
proof -
  let ?n = "real_of_int (e - s)"
  have "1 - fadeProgress s e (e - 1) = 1 / ?n"
    unfolding fadeProgress_last[OF assms] by simp
  then have "\<bar>x * cosineEase (1 - fadeProgress s e (e - 1))\<bar> = \<bar>x\<bar> * cosineEase (1 / ?n)"
    using cosineEase_small[of "1 / ?n"] by (simp add: abs_mult)
  also have "\<dots> \<le> \<bar>x\<bar> * (1 / ?n * pi / 2)\<^sup>2"
    using cosineEase_small[of "1 / ?n"] by (simp add: mult_left_mono)
  also have "(1 / ?n * pi / 2) = pi / (2 * ?n)" by simp
  finally show ?thesis .
qed

text \<open>
  C7. On a loaded buffer \<^verbatim>\<open>applyFadeEffect\<close> installs a buffer with the same frame count,
  channel count and sample rate. With \<open>s = floor(startTime * sampleRate)\<close> and
  \<open>e = floor(endTime * sampleRate)\<close>, every sample at an index \<open>i\<close> in \<open>[s, e)\<close> is the
  input sample times \<open>0.5 * (1 - cos(raw * pi))\<close>, where \<open>raw = (i - s) / (e - s)\<close> for
  a fade-in and \<open>raw = 1 - (i - s) / (e - s)\<close> for a fade-out, and every sample outside
  \<open>[s, e)\<close> is copied unchanged. Consequently the first sample of the range is 0 after a
  fade-in and unchanged after a fade-out, and at the last sample of the range a fade-in
  differs from the input, and a fade-out from 0, by at most the input's magnitude times
  \<open>(pi / (2 * (e - s)))\<^sup>2\<close>.
\<close>

theorem applyFadeEffect_samples:
  assumes ab: "audioBuffer ed = Some b" and vb: "validBuffer b"
    and s: "s = toSample b startTime" and e: "e = toSample b endTime"
  shows "\<exists>ed' nb. applyFadeEffect ed startTime endTime ty = Inr ed' \<and> audioBuffer ed' = Some nb \<and>
     blength nb = blength b \<and> sampleRate nb = sampleRate b \<and>
     numberOfChannels nb = numberOfChannels b \<and>
     (\<forall>ch < numberOfChannels b.
        length (channelData nb ! ch) = blength b \<and>
        (\<forall>i < blength b.
           (s \<le> int i \<and> int i < e \<longrightarrow>
              (ty = ''in'' \<longrightarrow> channelData nb ! ch ! i =
                 channelData b ! ch ! i * cosineEase (fadeProgress s e (int i))) \<and>
              (ty = ''out'' \<longrightarrow> channelData nb ! ch ! i =
                 channelData b ! ch ! i * cosineEase (1 - fadeProgress s e (int i)))) \<and>
           (\<not> (s \<le> int i \<and> int i < e) \<longrightarrow> channelData nb ! ch ! i = channelData b ! ch ! i)) \<and>
        (0 \<le> s \<and> s < e \<and> s < int (blength b) \<longrightarrow>
           (ty = ''in'' \<longrightarrow> channelData nb ! ch ! nat s = 0) \<and>
           (ty = ''out'' \<longrightarrow> channelData nb ! ch ! nat s = channelData b ! ch ! nat s)) \<and>
        (0 < e \<and> s < e \<and> e \<le> int (blength b) \<longrightarrow>
           (ty = ''in'' \<longrightarrow>
              \<bar>channelData nb ! ch ! nat (e - 1) - channelData b ! ch ! nat (e - 1)\<bar> \<le>
                \<bar>channelData b ! ch ! nat (e - 1)\<bar> * (pi / (2 * real_of_int (e - s)))\<^sup>2) \<and>
           (ty = ''out'' \<longrightarrow>
              \<bar>channelData nb ! ch ! nat (e - 1)\<bar> \<le>
                \<bar>channelData b ! ch ! nat (e - 1)\<bar> * (pi / (2 * real_of_int (e - s)))\<^sup>2)))"
proof -
  let ?cd = "map (\<lambda>k. fadeCopy ty s e (channelData b ! k) (replicate (blength b) 0))
               [0..<numberOfChannels b]"
  let ?nb = "\<lparr>sampleRate = sampleRate b, blength = blength b, channelData = ?cd\<rparr>"
  note u = applyFadeEffect_unfold[OF ab vb, of startTime endTime ty, folded s e]
  have per: "length (?cd ! ch) = blength b \<and>
        (\<forall>i < blength b.
           (s \<le> int i \<and> int i < e \<longrightarrow>
              (ty = ''in'' \<longrightarrow> ?cd ! ch ! i =
                 channelData b ! ch ! i * cosineEase (fadeProgress s e (int i))) \<and>
              (ty = ''out'' \<longrightarrow> ?cd ! ch ! i =
                 channelData b ! ch ! i * cosineEase (1 - fadeProgress s e (int i)))) \<and>
           (\<not> (s \<le> int i \<and> int i < e) \<longrightarrow> ?cd ! ch ! i = channelData b ! ch ! i)) \<and>
        (0 \<le> s \<and> s < e \<and> s < int (blength b) \<longrightarrow>
           (ty = ''in'' \<longrightarrow> ?cd ! ch ! nat s = 0) \<and>
           (ty = ''out'' \<longrightarrow> ?cd ! ch ! nat s = channelData b ! ch ! nat s)) \<and>
        (0 < e \<and> s < e \<and> e \<le> int (blength b) \<longrightarrow>
           (ty = ''in'' \<longrightarrow>
              \<bar>?cd ! ch ! nat (e - 1) - channelData b ! ch ! nat (e - 1)\<bar> \<le>
                \<bar>channelData b ! ch ! nat (e - 1)\<bar> * (pi / (2 * real_of_int (e - s)))\<^sup>2) \<and>
           (ty = ''out'' \<longrightarrow>
              \<bar>?cd ! ch ! nat (e - 1)\<bar> \<le>
                \<bar>channelData b ! ch ! nat (e - 1)\<bar> * (pi / (2 * real_of_int (e - s)))\<^sup>2))"
    if ch: "ch < numberOfChannels b" for ch
  proof -
    note smp = fade_sample[OF vb ch, of _ ty s e]
    have 1: "length (?cd ! ch) = blength b" by (rule fade_length[OF vb ch])
    have 2: "\<forall>i < blength b.
           (s \<le> int i \<and> int i < e \<longrightarrow>
              (ty = ''in'' \<longrightarrow> ?cd ! ch ! i =
                 channelData b ! ch ! i * cosineEase (fadeProgress s e (int i))) \<and>
              (ty = ''out'' \<longrightarrow> ?cd ! ch ! i =
                 channelData b ! ch ! i * cosineEase (1 - fadeProgress s e (int i)))) \<and>
           (\<not> (s \<le> int i \<and> int i < e) \<longrightarrow> ?cd ! ch ! i = channelData b ! ch ! i)"
    proof (intro allI impI)
      fix i assume "i < blength b"
      note val = smp[OF this]
      show
        "(s \<le> int i \<and> int i < e \<longrightarrow>
              (ty = ''in'' \<longrightarrow> ?cd ! ch ! i =
                 channelData b ! ch ! i * cosineEase (fadeProgress s e (int i))) \<and>
              (ty = ''out'' \<longrightarrow> ?cd ! ch ! i =
                 channelData b ! ch ! i * cosineEase (1 - fadeProgress s e (int i)))) \<and>
           (\<not> (s \<le> int i \<and> int i < e) \<longrightarrow> ?cd ! ch ! i = channelData b ! ch ! i)"
        unfolding val by (auto simp: fadeMultiplier_in fadeMultiplier_out)
    qed
    have 3: "(ty = ''in'' \<longrightarrow> ?cd ! ch ! nat s = 0) \<and>
           (ty = ''out'' \<longrightarrow> ?cd ! ch ! nat s = channelData b ! ch ! nat s)"
      if "0 \<le> s \<and> s < e \<and> s < int (blength b)"
    proof -
      from that have k: "nat s < blength b" "s \<le> int (nat s) \<and> int (nat s) < e"
        "int (nat s) = s"
        by linarith+
      have v: "?cd ! ch ! nat s = channelData b ! ch ! nat s * fadeMultiplier ty s (e - s) s"
        using smp[OF k(1)] k(2,3) by simp
      show ?thesis unfolding v
        by (auto simp: fadeMultiplier_in fadeMultiplier_out fadeProgress_start cosineEase_0
            cosineEase_1)
    qed
    have 4: "(ty = ''in'' \<longrightarrow>
              \<bar>?cd ! ch ! nat (e - 1) - channelData b ! ch ! nat (e - 1)\<bar> \<le>
                \<bar>channelData b ! ch ! nat (e - 1)\<bar> * (pi / (2 * real_of_int (e - s)))\<^sup>2) \<and>
           (ty = ''out'' \<longrightarrow>
              \<bar>?cd ! ch ! nat (e - 1)\<bar> \<le>
                \<bar>channelData b ! ch ! nat (e - 1)\<bar> * (pi / (2 * real_of_int (e - s)))\<^sup>2)"
      if "0 < e \<and> s < e \<and> e \<le> int (blength b)"
    proof -
      from that have k: "nat (e - 1) < blength b" "s \<le> int (nat (e - 1)) \<and> int (nat (e - 1)) < e"
        "int (nat (e - 1)) = e - 1" and se: "s < e"
        by linarith+
      have v: "?cd ! ch ! nat (e - 1) =
        channelData b ! ch ! nat (e - 1) * fadeMultiplier ty s (e - s) (e - 1)"
        using smp[OF k(1)] k(2,3) by simp
      show ?thesis unfolding v
        using ease_last_in[OF se] ease_last_out[OF se]
        by (auto simp: fadeMultiplier_in fadeMultiplier_out)
    qed
    from 1 2 3 4 show ?thesis by blast
  qed
  have nch: "numberOfChannels ?nb = numberOfChannels b" by (simp add: numberOfChannels_def)
  show ?thesis
    apply (rule exI, rule exI[of _ ?nb])
    apply (intro conjI)
         apply (rule u)
        apply simp
       apply simp
      apply simp
     apply (rule nch)
    using per apply simp
    done
qed


text \<open>
  Witness for C7: a fade-in over the whole example buffer (four frames) silences the first
  frame and halves the third, whose progress is one half.
\<close>

theorem applyFadeEffect_samples_witness:
  "audioBuffer exampleEditor = Some exampleBuffer \<and> validBuffer exampleBuffer \<and>
   toSample exampleBuffer 0 = 0 \<and> toSample exampleBuffer 4 = 4 \<and>
   (\<exists>ed' nb. applyFadeEffect exampleEditor 0 4 ''in'' = Inr ed' \<and> audioBuffer ed' = Some nb \<and>
      blength nb = 4 \<and> channelData nb ! 0 ! 0 = 0 \<and> channelData nb ! 0 ! 2 = 0.15)"
proof -
  have s: "0 = toSample exampleBuffer 0" and e: "4 = toSample exampleBuffer 4"
    by (simp_all add: toSample_def exampleBuffer_def)
  have h: "audioBuffer exampleEditor = Some exampleBuffer" "validBuffer exampleBuffer"
    by (simp_all add: exampleEditor_def exampleBuffer_def validBuffer_def)
  have n: "numberOfChannels exampleBuffer = 2" "blength exampleBuffer = 4"
    by (simp_all add: numberOfChannels_def exampleBuffer_def)
  from applyFadeEffect_samples[OF h s e, of "''in''"] obtain ed' nb where
    r: "applyFadeEffect exampleEditor 0 4 ''in'' = Inr ed'" "audioBuffer ed' = Some nb"
      "blength nb = blength exampleBuffer"
    and smp: "\<forall>ch < numberOfChannels exampleBuffer.
        length (channelData nb ! ch) = blength exampleBuffer \<and>
        (\<forall>i < blength exampleBuffer.
           (0 \<le> int i \<and> int i < 4 \<longrightarrow>
              (''in'' = ''in'' \<longrightarrow> channelData nb ! ch ! i =
                 channelData exampleBuffer ! ch ! i * cosineEase (fadeProgress 0 4 (int i))) \<and>
              (''in'' = ''out'' \<longrightarrow> channelData nb ! ch ! i =
                 channelData exampleBuffer ! ch ! i * cosineEase (1 - fadeProgress 0 4 (int i)))) \<and>
           (\<not> (0 \<le> int i \<and> int i < 4) \<longrightarrow>
              channelData nb ! ch ! i = channelData exampleBuffer ! ch ! i)) \<and>
        (0 \<le> (0::int) \<and> (0::int) < 4 \<and> 0 < int (blength exampleBuffer) \<longrightarrow>
           (''in'' = ''in'' \<longrightarrow> channelData nb ! ch ! nat 0 = 0) \<and>
           (''in'' = ''out'' \<longrightarrow>
              channelData nb ! ch ! nat 0 = channelData exampleBuffer ! ch ! nat 0)) \<and>
        (0 < (4::int) \<and> (0::int) < 4 \<and> 4 \<le> int (blength exampleBuffer) \<longrightarrow>
           (''in'' = ''in'' \<longrightarrow>
              \<bar>channelData nb ! ch ! nat (4 - 1) - channelData exampleBuffer ! ch ! nat (4 - 1)\<bar> \<le>
                \<bar>channelData exampleBuffer ! ch ! nat (4 - 1)\<bar> * (pi / (2 * real_of_int (4 - 0)))\<^sup>2) \<and>
           (''in'' = ''out'' \<longrightarrow>
              \<bar>channelData nb ! ch ! nat (4 - 1)\<bar> \<le>
                \<bar>channelData exampleBuffer ! ch ! nat (4 - 1)\<bar> * (pi / (2 * real_of_int (4 - 0)))\<^sup>2))"
    by blast
  from smp have ch0: "(\<forall>i < 4.
           (0 \<le> int i \<and> int i < 4 \<longrightarrow>
              channelData nb ! 0 ! i =
                 channelData exampleBuffer ! 0 ! i * cosineEase (fadeProgress 0 4 (int i))))"
    unfolding n by simp
  then have "channelData nb ! 0 ! 0 = channelData exampleBuffer ! 0 ! 0 * cosineEase (fadeProgress 0 4 (int 0))"
    "channelData nb ! 0 ! 2 = channelData exampleBuffer ! 0 ! 2 * cosineEase (fadeProgress 0 4 (int 2))"
    by simp_all
  then have "channelData nb ! 0 ! 0 = 0" "channelData nb ! 0 ! 2 = 0.15"
    by (simp_all add: exampleBuffer_def fadeProgress_def cosineEase_def)
  with h r n s e show ?thesis by simp
qed
section \<open>Properties of the normalisation\<close>




























section \<open>Properties of the combined buffer\<close>

lemma chunkCopy_length: "length (chunkCopy cur T sf n old nd) = length nd"
  unfolding chunkCopy_def by (rule forLoop_length) (simp add: ta_write_length)

lemma chunkCopy_nth:
  assumes k: "k < length nd"
  shows "chunkCopy cur T sf n old nd ! k =
     (if 0 \<le> int k - cur \<and> int k - cur < n \<and> int k < T
      then orZero (sampleAt old (sf + (int k - cur))) else nd ! k)"
proof -
  let ?body = "\<lambda>i nd. if cur + i < T
               then ta_write nd (cur + i) (orZero (sampleAt old (sf + i))) else nd"
  have "forLoop 0 n ?body nd ! k =
     (if 0 \<le> int k - cur \<and> int k - cur < n
      then (\<lambda>i x. if cur + i < T then orZero (sampleAt old (sf + i)) else x) (int k - cur) (nd ! k)
      else nd ! k)"
  proof (rule forLoop_pointwise[where d = cur, OF _ _ _ k])
    fix i and xs :: "real list"
    show "length (?body i xs) = length xs" by (simp add: ta_write_length)
  next
    fix i j and xs :: "real list"
    assume "j < length xs" "int j \<noteq> i + cur"
    then show "?body i xs ! j = xs ! j" by (simp add: ta_write_nth add.commute)
  next
    fix i j and xs :: "real list"
    assume "j < length xs" "int j = i + cur"
    then show "?body i xs ! j = (if cur + i < T then orZero (sampleAt old (sf + i)) else xs ! j)"
      by (simp add: ta_write_nth add.commute)
  qed
  then show ?thesis by (auto simp: chunkCopy_def)
qed

lemma chunkPass_fold:
  assumes "length cd = numberOfChannels b"
  shows "fold (chunkPass b T) cs (cur, cd) =
     (cur + sum_list (map (chunkFrameCount (sampleRate b)) cs),
      map (\<lambda>k. channelPasses (sampleRate b) T (channelData b ! k) cs cur (cd ! k))
        [0..<numberOfChannels b])"
  using assms
proof (induction cs arbitrary: cur cd)
  case Nil
  then show ?case using map_nth[of cd] by simp
next
  case (Cons c cs)
  let ?n = "chunkFrameCount (sampleRate b) c"
  let ?cd = "map (\<lambda>k. chunkCopy cur T \<lfloor>dmul (start c) (sampleRate b)\<rfloor> ?n (channelData b ! k) (cd ! k))
               [0..<numberOfChannels b]"
  have step: "chunkPass b T c (cur, cd) = (cur + ?n, ?cd)"
    using Cons.prems by (simp add: chunkPass_def Let_def chunkFrameCount_def eachChannel_map)
  have len: "length ?cd = numberOfChannels b" by simp
  show ?case
    unfolding fold_simps step Cons.IH[OF len]
    by (simp add: add.assoc cong: map_cong)
qed

lemma slice_length:
  "0 \<le> sf \<Longrightarrow> sf \<le> ef \<Longrightarrow> ef \<le> int (length old) \<Longrightarrow>
   length (take (nat (ef - sf)) (drop (nat sf) old)) = nat (ef - sf)"
  by simp

lemma slice_nth:
  assumes "0 \<le> sf" "sf \<le> ef" "ef \<le> int (length old)" "0 \<le> j" "j < ef - sf"
  shows "orZero (sampleAt old (sf + j)) = take (nat (ef - sf)) (drop (nat sf) old) ! nat j"
proof -
  have r: "0 \<le> sf + j" "sf + j < int (length old)" using assms by simp_all
  have n: "nat (sf + j) = nat sf + nat j" using assms by linarith
  have "nat j < nat (ef - sf)" using assms by linarith
  then have "take (nat (ef - sf)) (drop (nat sf) old) ! nat j = old ! (nat sf + nat j)"
    using assms by simp
  then show ?thesis using r n by (simp add: orZero_def sampleAt_def)
qed

lemma framesOf_length:
  "0 \<le> \<lfloor>dmul (start c) rate\<rfloor> \<Longrightarrow> \<lfloor>dmul (start c) rate\<rfloor> \<le> \<lfloor>dmul (endt c) rate\<rfloor> \<Longrightarrow>
   \<lfloor>dmul (endt c) rate\<rfloor> \<le> int (length old) \<Longrightarrow>
   length (framesOf rate old c) = nat (chunkFrameCount rate c)"
  unfolding framesOf_def chunkFrameCount_def by (rule slice_length)

lemma framesOf_nth:
  "0 \<le> \<lfloor>dmul (start c) rate\<rfloor> \<Longrightarrow> \<lfloor>dmul (start c) rate\<rfloor> \<le> \<lfloor>dmul (endt c) rate\<rfloor> \<Longrightarrow>
   \<lfloor>dmul (endt c) rate\<rfloor> \<le> int (length old) \<Longrightarrow> 0 \<le> j \<Longrightarrow> j < chunkFrameCount rate c \<Longrightarrow>
   orZero (sampleAt old (\<lfloor>dmul (start c) rate\<rfloor> + j)) = framesOf rate old c ! nat j"
  unfolding framesOf_def chunkFrameCount_def by (rule slice_nth)

lemma padded_nth:
  assumes "k < T"
  shows "take T (P @ replicate T (0::real)) ! k = (if k < length P then P ! k else 0)"
  using assms by (simp add: nth_append)

lemma channelPasses_result:
  assumes inside: "\<forall>c \<in> set cs. 0 \<le> \<lfloor>dmul (start c) rate\<rfloor> \<and> \<lfloor>dmul (start c) rate\<rfloor> \<le> \<lfloor>dmul (endt c) rate\<rfloor> \<and>
      \<lfloor>dmul (endt c) rate\<rfloor> \<le> int (length old)"
    and cur: "0 \<le> cur" "nat cur = length P"
    and nd: "nd = take (nat T) (P @ replicate (nat T) 0)"
  shows "channelPasses rate T old cs cur nd =
     take (nat T) (P @ concat (map (framesOf rate old) cs) @ replicate (nat T) 0)"
  using assms
proof (induction cs arbitrary: cur nd P)
  case Nil
  then show ?case by simp
next
  case (Cons c cs)
  let ?sf = "\<lfloor>dmul (start c) rate\<rfloor>" and ?n = "chunkFrameCount rate c"
  let ?X = "framesOf rate old c"
  from Cons.prems(1) have c: "0 \<le> ?sf" "?sf \<le> \<lfloor>dmul (endt c) rate\<rfloor>" "\<lfloor>dmul (endt c) rate\<rfloor> \<le> int (length old)"
    and rest: "\<forall>c \<in> set cs. 0 \<le> \<lfloor>dmul (start c) rate\<rfloor> \<and> \<lfloor>dmul (start c) rate\<rfloor> \<le> \<lfloor>dmul (endt c) rate\<rfloor> \<and>
      \<lfloor>dmul (endt c) rate\<rfloor> \<le> int (length old)"
    by simp_all
  have n0: "0 \<le> ?n" using c by (simp add: chunkFrameCount_def)
  have lx: "length ?X = nat ?n" by (rule framesOf_length[OF c])
  have lnd: "length nd = nat T" using Cons.prems(4) by simp
  have copy: "chunkCopy cur T ?sf ?n old nd = take (nat T) ((P @ ?X) @ replicate (nat T) 0)"
  proof (rule nth_equalityI)
    show "length (chunkCopy cur T ?sf ?n old nd) = length (take (nat T) ((P @ ?X) @ replicate (nat T) 0))"
      using lnd by (simp add: chunkCopy_length)
    fix k assume "k < length (chunkCopy cur T ?sf ?n old nd)"
    then have k: "k < nat T" using lnd by (simp add: chunkCopy_length)
    then have kT: "int k < T" by linarith
    have knd: "k < length nd" using k lnd by simp
    have ndk: "nd ! k = (if k < length P then P ! k else 0)"
      unfolding Cons.prems(4) by (rule padded_nth[OF k])
    have tgt: "take (nat T) ((P @ ?X) @ replicate (nat T) 0) ! k =
               (if k < length (P @ ?X) then (P @ ?X) ! k else 0)"
      by (rule padded_nth[OF k])
    show "chunkCopy cur T ?sf ?n old nd ! k = take (nat T) ((P @ ?X) @ replicate (nat T) 0) ! k"
    proof (cases "k < length P")
      case True
      then have "\<not> 0 \<le> int k - cur" using Cons.prems(2,3) by linarith
      then show ?thesis unfolding tgt chunkCopy_nth[OF knd] ndk using True by (simp add: nth_append)
    next
      case False
      then have ge: "0 \<le> int k - cur" and idx: "nat (int k - cur) = k - length P"
        using Cons.prems(2,3) by linarith+
      show ?thesis
      proof (cases "int k - cur < ?n")
        case True
        then have nn: "nat (int k - cur) < nat ?n" using ge by linarith
        have in_x: "k - length P < length ?X" "k < length (P @ ?X)"
          using nn lx idx False by simp_all
        have "orZero (sampleAt old (?sf + (int k - cur))) = ?X ! nat (int k - cur)"
          by (rule framesOf_nth[OF c ge True])
        then show ?thesis unfolding tgt chunkCopy_nth[OF knd] using ge True kT False in_x idx
          by (simp add: nth_append)
      next
        case F2: False
        then have nn: "\<not> nat (int k - cur) < nat ?n" using ge by linarith
        have "\<not> k < length (P @ ?X)" using nn lx idx False by simp
        then show ?thesis unfolding tgt chunkCopy_nth[OF knd] ndk using F2 False by simp
      qed
    qed
  qed
  have cur': "0 \<le> cur + ?n" "nat (cur + ?n) = length (P @ ?X)"
    using Cons.prems(2,3) n0 lx by simp_all
  show ?case
    unfolding channelPasses.simps
    using Cons.IH[OF rest cur' copy] by simp
qed


lemma createCombinedBuffer_channels:
  assumes vb: "validBuffer b"
    and ne: "selectedChunks m given \<noteq> []"
    and inside: "\<forall>c \<in> set (selectedChunks m given). framesInside b c"
    and pos: "0 < totalFramesOf b (selectedChunks m given)"
  shows "createCombinedBuffer m b given =
     Inr (Some \<lparr>sampleRate = sampleRate b,
                blength = nat (totalFramesOf b (selectedChunks m given)),
                channelData =
                  map (\<lambda>old. take (nat (totalFramesOf b (selectedChunks m given)))
                           (concat (map (framesOf (sampleRate b) old) (selectedChunks m given)) @
                            replicate (nat (totalFramesOf b (selectedChunks m given))) 0))
                    (channelData b)\<rparr>)"
proof -
  let ?cs = "selectedChunks m given" and ?r = "sampleRate b" and ?c = "numberOfChannels b"
  let ?T = "totalFramesOf b ?cs"
  have c: "0 < ?c" using vb by (simp add: validBuffer_def numberOfChannels_def)
  have tf: "\<lfloor>dmul (fold (\<lambda>c total. dadd total (dsub (endt c) (start c))) ?cs 0) ?r\<rfloor> = ?T"
    by (simp add: totalFramesOf_def summedDuration_def)
  note cb = createBuffer_ok[OF c pos, of ?r]
  have l0: "length (replicate ?c (replicate (nat ?T) (0::real))) = ?c" by simp
  have chan: "channelPasses ?r ?T (channelData b ! k) ?cs 0 (replicate (nat ?T) 0) =
        take (nat ?T) (concat (map (framesOf ?r (channelData b ! k)) ?cs) @ replicate (nat ?T) 0)"
    if k: "k < ?c" for k
  proof -
    have len: "length (channelData b ! k) = blength b" using validBuffer_channel[OF vb k] .
    have ins: "\<forall>c \<in> set ?cs. 0 \<le> \<lfloor>dmul (start c) ?r\<rfloor> \<and> \<lfloor>dmul (start c) ?r\<rfloor> \<le> \<lfloor>dmul (endt c) ?r\<rfloor> \<and>
      \<lfloor>dmul (endt c) ?r\<rfloor> \<le> int (length (channelData b ! k))"
      using inside unfolding len framesInside_def by simp
    have "channelPasses ?r ?T (channelData b ! k) ?cs 0 (replicate (nat ?T) 0) =
        take (nat ?T) ([] @ concat (map (framesOf ?r (channelData b ! k)) ?cs) @ replicate (nat ?T) 0)"
      by (rule channelPasses_result[OF ins]) simp_all
    then show ?thesis by simp
  qed
  have "snd (fold (chunkPass b ?T) ?cs (0, replicate ?c (replicate (nat ?T) 0))) =
        map (\<lambda>k. channelPasses ?r ?T (channelData b ! k) ?cs 0 (replicate (nat ?T) 0)) [0..<?c]"
    unfolding chunkPass_fold[OF l0] by (simp cong: map_cong)
  also have "\<dots> = map (\<lambda>k. (\<lambda>old. take (nat ?T) (concat (map (framesOf ?r old) ?cs) @ replicate (nat ?T) 0))
                         (channelData b ! k)) [0..<?c]"
    by (rule map_cong[OF refl]) (simp add: chan)
  also have "\<dots> = map (\<lambda>old. take (nat ?T) (concat (map (framesOf ?r old) ?cs) @ replicate (nat ?T) 0))
                     (channelData b)"
    unfolding numberOfChannels_def by (rule map_index)
  finally have fill: "snd (fold (chunkPass b ?T) ?cs (0, replicate ?c (replicate (nat ?T) 0))) =
     map (\<lambda>old. take (nat ?T) (concat (map (framesOf ?r old) ?cs) @ replicate (nat ?T) 0))
                     (channelData b)" .
  show ?thesis
    using ne by (simp add: createCombinedBuffer_def Let_def selectedChunks_def[symmetric] tf cb fill)
qed

lemma concat_frames_length:
  assumes "\<forall>c \<in> set cs. 0 \<le> \<lfloor>dmul (start c) rate\<rfloor> \<and> \<lfloor>dmul (start c) rate\<rfloor> \<le> \<lfloor>dmul (endt c) rate\<rfloor> \<and>
      \<lfloor>dmul (endt c) rate\<rfloor> \<le> int (length old)"
  shows "int (length (concat (map (framesOf rate old) cs))) = sum_list (map (chunkFrameCount rate) cs)"
  using assms
proof (induction cs)
  case Nil
  then show ?case by simp
next
  case (Cons c cs)
  then have c: "0 \<le> \<lfloor>dmul (start c) rate\<rfloor>" "\<lfloor>dmul (start c) rate\<rfloor> \<le> \<lfloor>dmul (endt c) rate\<rfloor>"
    "\<lfloor>dmul (endt c) rate\<rfloor> \<le> int (length old)" by simp_all
  have "0 \<le> chunkFrameCount rate c" using c by (simp add: chunkFrameCount_def)
  then show ?case using Cons framesOf_length[OF c] by simp
qed

text \<open>
  C8, as the code has it. For a non-empty chunk list whose frame ranges
  \<open>[floor(start * sampleRate), floor(end * sampleRate))\<close> lie inside the original buffer,
  \<^verbatim>\<open>createCombinedBuffer\<close> allocates \<open>floor(totalDuration * sampleRate)\<close> frames, where
  \<open>totalDuration\<close> is the running sum of \<open>end - start\<close>, every operation rounded to
  binary64, and when that is at least one it returns a new buffer with the sample rate
  and channel count of the original whose every channel is the concatenation of the
  chunks' frame ranges in list order, cut or padded with zeros to the allocated length.
  Whenever the allocated length equals the sum of the per-chunk frame counts, every
  channel is exactly that concatenation, nothing dropped or padded.
\<close>

theorem createCombinedBuffer_concat:
  assumes vb: "validBuffer b"
    and ne: "selectedChunks m given \<noteq> []"
    and inside: "\<forall>c \<in> set (selectedChunks m given). framesInside b c"
    and pos: "0 < totalFramesOf b (selectedChunks m given)"
  shows "\<exists>nb. createCombinedBuffer m b given = Inr (Some nb) \<and>
     int (blength nb) = totalFramesOf b (selectedChunks m given) \<and>
     sampleRate nb = sampleRate b \<and> numberOfChannels nb = numberOfChannels b \<and>
     (\<forall>ch < numberOfChannels b.
        channelData nb ! ch =
          take (blength nb)
            (concat (map (framesOf (sampleRate b) (channelData b ! ch)) (selectedChunks m given)) @
             replicate (blength nb) 0) \<and>
        (sum_list (map (chunkFrameCount (sampleRate b)) (selectedChunks m given)) =
           totalFramesOf b (selectedChunks m given) \<longrightarrow>
         channelData nb ! ch =
           concat (map (framesOf (sampleRate b) (channelData b ! ch)) (selectedChunks m given))))"
proof -
  let ?cs = "selectedChunks m given" and ?r = "sampleRate b"
  let ?T = "totalFramesOf b ?cs"
  let ?nb = "\<lparr>sampleRate = ?r, blength = nat ?T,
              channelData = map (\<lambda>old. take (nat ?T) (concat (map (framesOf ?r old) ?cs) @
                                        replicate (nat ?T) 0)) (channelData b)\<rparr>"
  note u = createCombinedBuffer_channels[OF assms]
  have per: "channelData ?nb ! ch =
          take (blength ?nb) (concat (map (framesOf ?r (channelData b ! ch)) ?cs) @
             replicate (blength ?nb) 0) \<and>
        (sum_list (map (chunkFrameCount ?r) ?cs) = ?T \<longrightarrow>
         channelData ?nb ! ch = concat (map (framesOf ?r (channelData b ! ch)) ?cs))"
    if ch: "ch < numberOfChannels b" for ch
  proof -
    have len: "length (channelData b ! ch) = blength b" using validBuffer_channel[OF vb ch] .
    have ins: "\<forall>c \<in> set ?cs. 0 \<le> \<lfloor>dmul (start c) ?r\<rfloor> \<and> \<lfloor>dmul (start c) ?r\<rfloor> \<le> \<lfloor>dmul (endt c) ?r\<rfloor> \<and>
      \<lfloor>dmul (endt c) ?r\<rfloor> \<le> int (length (channelData b ! ch))"
      using inside unfolding len framesInside_def by simp
    have 1: "channelData ?nb ! ch =
          take (nat ?T) (concat (map (framesOf ?r (channelData b ! ch)) ?cs) @ replicate (nat ?T) 0)"
      using ch by (simp add: numberOfChannels_def)
    have 2: "channelData ?nb ! ch = concat (map (framesOf ?r (channelData b ! ch)) ?cs)"
      if "sum_list (map (chunkFrameCount ?r) ?cs) = ?T"
    proof -
      have "length (concat (map (framesOf ?r (channelData b ! ch)) ?cs)) = nat ?T"
        using concat_frames_length[OF ins] that by linarith
      then show ?thesis unfolding 1 by simp
    qed
    from 1 2 show ?thesis by simp
  qed
  have blen: "int (blength ?nb) = ?T" using pos by simp
  have nch: "numberOfChannels ?nb = numberOfChannels b" by (simp add: numberOfChannels_def)
  show ?thesis
    apply (rule exI[of _ ?nb])
    apply (intro conjI)
        apply (rule u)
       apply (rule blen)
      apply simp
     apply (rule nch)
    using per apply blast
    done
qed

text \<open>
  Witness for C8: for the two chunks of the example buffer split at 1.5 s the frame counts
  1 and 3 add up to the four allocated frames (1.5 and 2.5 are representable and their
  sum is exact), and the combined buffer repeats the whole channel.
\<close>

theorem createCombinedBuffer_concat_witness:
  "validBuffer exampleBuffer \<and> selectedChunks splitManager None \<noteq> [] \<and>
   list_all (framesInside exampleBuffer) (selectedChunks splitManager None) \<and>
   totalFramesOf exampleBuffer (selectedChunks splitManager None) = 4 \<and>
   sum_list (map (chunkFrameCount (sampleRate exampleBuffer)) (selectedChunks splitManager None)) = 4 \<and>
   (\<exists>nb. createCombinedBuffer splitManager exampleBuffer None = Inr (Some nb) \<and>
      blength nb = 4 \<and> sampleRate nb = 1 \<and> numberOfChannels nb = 2 \<and>
      channelData nb ! 0 = [0.1, 0.2, 0.3, 0.4])"
proof -
  let ?cs = "selectedChunks splitManager None"
  have fl: "\<lfloor>3 / 2 :: real\<rfloor> = 1" by linarith
  note ar = dmul_def dadd_def dsub_def binary64_halves
  have vb: "validBuffer exampleBuffer" by (simp add: exampleBuffer_def validBuffer_def)
  have cs: "?cs = [\<lparr>start = 0, endt = 3 / 2, cid = 1\<rparr>, \<lparr>start = 3 / 2, endt = 4, cid = 2\<rparr>]"
    by (simp add: selectedChunks_def splitManager_def)
  have ne: "?cs \<noteq> []" unfolding cs by simp
  have ins: "\<forall>c \<in> set ?cs. framesInside exampleBuffer c"
    unfolding cs by (simp add: framesInside_def exampleBuffer_def ar fl)
  have T: "totalFramesOf exampleBuffer ?cs = 4"
    unfolding cs by (simp add: totalFramesOf_def summedDuration_def exampleBuffer_def ar)
  have sum: "sum_list (map (chunkFrameCount (sampleRate exampleBuffer)) ?cs) = 4"
    unfolding cs by (simp add: chunkFrameCount_def exampleBuffer_def ar fl)
  have pos: "0 < totalFramesOf exampleBuffer ?cs" unfolding T by simp
  have n: "numberOfChannels exampleBuffer = 2" by (simp add: numberOfChannels_def exampleBuffer_def)
  from createCombinedBuffer_concat[OF vb ne ins pos] sum T obtain nb where
    r: "createCombinedBuffer splitManager exampleBuffer None = Inr (Some nb)"
      "int (blength nb) = 4" "sampleRate nb = sampleRate exampleBuffer"
      "numberOfChannels nb = numberOfChannels exampleBuffer"
    and all: "\<forall>ch < numberOfChannels exampleBuffer.
         channelData nb ! ch =
           concat (map (framesOf (sampleRate exampleBuffer) (channelData exampleBuffer ! ch)) ?cs)"
    by auto
  from all n have "channelData nb ! 0 =
     concat (map (framesOf (sampleRate exampleBuffer) (channelData exampleBuffer ! 0)) ?cs)"
    by simp
  then have c0: "channelData nb ! 0 = [0.1, 0.2, 0.3, 0.4]"
    unfolding cs by (simp add: framesOf_def chunkFrameCount_def exampleBuffer_def ar fl)
  have "list_all (framesInside exampleBuffer) ?cs" using ins by (simp add: list_all_iff)
  moreover have "blength nb = 4" "sampleRate nb = 1" "numberOfChannels nb = 2"
    using r(2,3,4) n by (simp_all add: exampleBuffer_def)
  ultimately show ?thesis using vb ne T sum r(1) c0 by blast
qed

subsection \<open>Frames lost to the allocated length\<close>

lemma example_inside: "framesInside exampleBuffer \<lparr>start = 1.5, endt = 4, cid = 2\<rparr>"
  by (simp add: framesInside_def exampleBuffer_def dmul_def binary64_halves)

text \<open>The durations of the three chunks of \<open>fullManager\<close> and their running sum.\<close>

lemma binary64_d04: "binary64 d04 = d04"
  using binary64_exact[of "7205759403792794 / 2 ^ 54" 54 7205759403792794]
  by (simp add: d04_val)

lemma binary64_d17: "binary64 d17 = d17"
  using binary64_exact[of "7656119366529843 / 2 ^ 52" 52 7656119366529843]
  by (simp add: d17_val)

lemma full_first: "dsub d04 0 = d04" "dadd 0 d04 = d04"
  by (simp_all add: dsub_def dadd_def binary64_d04)

lemma full_second: "dsub d17 d04 = 5854679515581644 / 2 ^ 52"
  using binary64_tie[of "7656119366529843 / 2 ^ 52 - 7205759403792794 / 2 ^ 54" 52 5854679515581644]
  by (simp add: dsub_def d04_val d17_val)

lemma full_second_sum: "dadd d04 (5854679515581644 / 2 ^ 52) = 7656119366529842 / 2 ^ 52"
  using binary64_tie[of "7205759403792794 / 2 ^ 54 + 5854679515581644 / 2 ^ 52" 52 7656119366529842]
  by (simp add: dadd_def d04_val)

lemma full_third: "dsub 4 d17 = 5179139571476070 / 2 ^ 51"
  using binary64_tie[of "4 - 7656119366529843 / 2 ^ 52" 51 5179139571476070]
  by (simp add: dsub_def d17_val)

lemma full_third_sum:
  "dadd (7656119366529842 / 2 ^ 52) (5179139571476070 / 2 ^ 51) = 9007199254740991 / 2 ^ 51"
  using binary64_exact[of "7656119366529842 / 2 ^ 52 + 5179139571476070 / 2 ^ 51" 51 9007199254740991]
  by (simp add: dadd_def)

lemma full_duration: "summedDuration (chunks fullManager) = 9007199254740991 / 2 ^ 51"
  by (simp only: summedDuration_def fullManager_def chunk_manager.simps chunk.simps fold_simps
      full_first full_second full_second_sum full_third full_third_sum)

lemma example_rate: "sampleRate exampleBuffer = 1" "int (blength exampleBuffer) = 4"
  by (simp_all add: exampleBuffer_def)

lemma full_total: "totalFramesOf exampleBuffer (chunks fullManager) = 3"
proof -
  have m: "dmul (9007199254740991 / 2 ^ 51) 1 = 9007199254740991 / 2 ^ 51"
    unfolding dmul_def mult_1_right by (rule binary64_exact[of _ 51 9007199254740991]) simp_all
  show ?thesis unfolding totalFramesOf_def full_duration example_rate m by simp
qed

lemma full_frames:
  "\<lfloor>dmul 0 1\<rfloor> = 0" "\<lfloor>dmul d04 1\<rfloor> = 0" "\<lfloor>dmul d17 1\<rfloor> = 1" "\<lfloor>dmul 4 1\<rfloor> = 4"
proof -
  have "\<lfloor>d04\<rfloor> = 0" "\<lfloor>d17\<rfloor> = 1" by (simp_all add: d04_val d17_val)
  then show "\<lfloor>dmul 0 1\<rfloor> = 0" "\<lfloor>dmul d04 1\<rfloor> = 0" "\<lfloor>dmul d17 1\<rfloor> = 1" "\<lfloor>dmul 4 1\<rfloor> = 4"
    by (simp_all add: dmul_def binary64_halves binary64_d04 binary64_d17)
qed

text \<open>
  C8, as the specification states it, fails in two ways. For the single chunk from 1.5 s
  to 4 s of the example buffer (one frame per second) the frame range is \<open>[1, 4)\<close>, three
  frames, but the combined buffer has \<open>floor(2.5) = 2\<close> frames and the third frame of the
  range is dropped. And for the full chunk list of the example buffer split at 0.4 s and
  at 1.7 s, contiguous from 0 to 4, the frame counts 0, 1 and 3 add up to the four frames
  of the buffer, but the durations sum to 3.9999999999999996 in binary64 and only three
  frames are allocated: the last frame is dropped.
\<close>

theorem createCombinedBuffer_concat_counterexample:
  "createCombinedBuffer (initializeChunks 4) exampleBuffer (Some resumeChunks) =
     Inr (Some \<lparr>sampleRate = 1, blength = 2, channelData = [[0.2, 0.3], [0.6, 0.7]]\<rparr>) \<and>
   sum_list (map (chunkFrameCount (sampleRate exampleBuffer)) resumeChunks) = 3 \<and>
   framesOf (sampleRate exampleBuffer) (channelData exampleBuffer ! 0) (hd resumeChunks) =
     [0.2, 0.3, 0.4] \<and>
   contiguous (chunks fullManager) \<and>
   summedDuration (chunks fullManager) = 9007199254740991 / 2 ^ 51 \<and>
   sum_list (map (chunkFrameCount (sampleRate exampleBuffer)) (chunks fullManager)) = 4 \<and>
   createCombinedBuffer fullManager exampleBuffer None =
     Inr (Some \<lparr>sampleRate = 1, blength = 3,
                channelData = [[0.1, 0.2, 0.3], [0.5, 0.6, 0.7]]\<rparr>)"
proof -
  note ar = dmul_def dadd_def dsub_def binary64_halves
  have vb: "validBuffer exampleBuffer" by (simp add: exampleBuffer_def validBuffer_def)
  have sel: "selectedChunks (initializeChunks 4) (Some resumeChunks) = resumeChunks"
    by (simp add: selectedChunks_def)
  have ne: "selectedChunks (initializeChunks 4) (Some resumeChunks) \<noteq> []"
    unfolding sel by (simp add: resumeChunks_def)
  have ins: "\<forall>c \<in> set (selectedChunks (initializeChunks 4) (Some resumeChunks)). framesInside exampleBuffer c"
    unfolding sel using example_inside by (simp add: resumeChunks_def)
  have fl: "\<lfloor>5 / 2 :: real\<rfloor> = 2" "\<lfloor>3 / 2 :: real\<rfloor> = 1" by linarith+
  have T: "totalFramesOf exampleBuffer resumeChunks = 2"
    by (simp add: totalFramesOf_def summedDuration_def resumeChunks_def exampleBuffer_def ar fl)
  have pos: "0 < totalFramesOf exampleBuffer (selectedChunks (initializeChunks 4) (Some resumeChunks))"
    unfolding sel T by simp
  have fr: "framesOf 1 old \<lparr>start = 3 / 2, endt = 4, cid = i\<rparr> = take 3 (drop 1 old)" for old i
    by (simp add: framesOf_def chunkFrameCount_def ar fl)
  have cnt: "chunkFrameCount 1 \<lparr>start = 3 / 2, endt = 4, cid = i\<rparr> = 3" for i
    by (simp add: chunkFrameCount_def ar fl)
  have resume: "createCombinedBuffer (initializeChunks 4) exampleBuffer (Some resumeChunks) =
     Inr (Some \<lparr>sampleRate = 1, blength = 2, channelData = [[0.2, 0.3], [0.6, 0.7]]\<rparr>) \<and>
   sum_list (map (chunkFrameCount (sampleRate exampleBuffer)) resumeChunks) = 3 \<and>
   framesOf (sampleRate exampleBuffer) (channelData exampleBuffer ! 0) (hd resumeChunks) =
     [0.2, 0.3, 0.4]"
    using createCombinedBuffer_channels[OF vb ne ins pos]
    unfolding sel T
    by (simp add: exampleBuffer_def resumeChunks_def fr cnt numeral_2_eq_2)
  have fsel: "selectedChunks fullManager None = chunks fullManager"
    by (simp add: selectedChunks_def)
  have fne: "selectedChunks fullManager None \<noteq> []"
    unfolding fsel by (simp add: fullManager_def)
  have fi: "framesInside exampleBuffer \<lparr>start = 0, endt = d04, cid = i\<rparr>"
    "framesInside exampleBuffer \<lparr>start = d04, endt = d17, cid = i\<rparr>"
    "framesInside exampleBuffer \<lparr>start = d17, endt = 4, cid = i\<rparr>" for i
    unfolding framesInside_def example_rate chunk.simps full_frames by simp_all
  have fins: "\<forall>c \<in> set (selectedChunks fullManager None). framesInside exampleBuffer c"
    unfolding fsel by (simp add: fullManager_def fi)
  have fpos: "0 < totalFramesOf exampleBuffer (selectedChunks fullManager None)"
    unfolding fsel full_total by simp
  have ffr: "framesOf 1 old \<lparr>start = 0, endt = d04, cid = i\<rparr> = []"
    "framesOf 1 old \<lparr>start = d04, endt = d17, cid = i\<rparr> = take 1 old"
    "framesOf 1 old \<lparr>start = d17, endt = 4, cid = i\<rparr> = take 3 (drop 1 old)" for old i
    by (simp_all add: framesOf_def chunkFrameCount_def full_frames)
  have fcnt: "sum_list (map (chunkFrameCount (sampleRate exampleBuffer)) (chunks fullManager)) = 4"
    by (simp add: fullManager_def exampleBuffer_def chunkFrameCount_def full_frames)
  have cont: "contiguous (chunks fullManager)"
    by (simp add: fullManager_def d04_val d17_val)
  have full: "createCombinedBuffer fullManager exampleBuffer None =
     Inr (Some \<lparr>sampleRate = 1, blength = 3,
                channelData = [[0.1, 0.2, 0.3], [0.5, 0.6, 0.7]]\<rparr>)"
    using createCombinedBuffer_channels[OF vb fne fins fpos]
    unfolding fsel full_total
    by (simp add: exampleBuffer_def fullManager_def ffr numeral_3_eq_3)
  from resume cont full_duration fcnt full show ?thesis by simp
qed

section \<open>Properties of the time-to-pixel conversion\<close>

lemma walkChunks_none:
  "\<forall>c \<in> set cs. \<not> (clipStart vr c \<le> time \<and> time \<le> clipEnd vr c) \<Longrightarrow>
   walkChunks vr tot w time x cs = 0"
  by (induction cs arbitrary: x) (auto simp: Let_def)

lemma walkChunks_owner:
  assumes "\<forall>p \<in> set pre. \<not> (clipStart vr p \<le> time \<and> time \<le> clipEnd vr p)"
    and "clipStart vr c \<le> time \<and> time \<le> clipEnd vr c"
  shows "walkChunks vr tot w time x (pre @ c # post) =
     x + sum_list (map (\<lambda>p. w * ((clipEnd vr p - clipStart vr p) / tot) + 4) pre) +
     (time - clipStart vr c) / (clipEnd vr c - clipStart vr c) *
       (w * ((clipEnd vr c - clipStart vr c) / tot))"
  using assms
proof (induction pre arbitrary: x)
  case Nil
  then show ?case by (simp add: Let_def)
next
  case (Cons p pre)
  then have np: "\<not> (clipStart vr p \<le> time \<and> time \<le> clipEnd vr p)"
    and rest: "\<forall>p \<in> set pre. \<not> (clipStart vr p \<le> time \<and> time \<le> clipEnd vr p)"
    by simp_all
  have "walkChunks vr tot w time x ((p # pre) @ c # post) =
        walkChunks vr tot w time (x + w * ((clipEnd vr p - clipStart vr p) / tot) + 4) (pre @ c # post)"
    using np by (auto simp: Let_def)
  then show ?case using Cons.IH[OF rest Cons.prems(2)] by (simp add: add.assoc)
qed

lemma fold_visible:
  "fold (\<lambda>c total. total + (clipEnd vr c - clipStart vr c)) cs a =
     a + sum_list (map (\<lambda>c. clipEnd vr c - clipStart vr c) cs)"
  by (induction cs arbitrary: a) auto

lemma totalVisibleDuration_pos:
  assumes "cs \<noteq> []" "\<forall>c \<in> set cs. 0 < clipEnd vr c - clipStart vr c"
  shows "0 < totalVisibleDuration vr cs"
proof -
  have "0 < sum_list (map (\<lambda>c. clipEnd vr c - clipStart vr c) cs)"
    using assms
  proof (induction cs)
    case Nil
    then show ?case by simp
  next
    case (Cons c cs)
    then show ?case by (cases cs) (auto intro: add_pos_pos)
  qed
  then show ?thesis by (simp add: totalVisibleDuration_def fold_visible)
qed

lemma visible_clip_pos:
  assumes "fst vr < snd vr" "start c < endt c" "endt c > fst vr" "start c < snd vr"
  shows "0 < clipEnd vr c - clipStart vr c"
  using assms by (auto simp: clipEnd_def clipStart_def max_def min_def)

text \<open>
  What the conversion returns at zoom level 1, with a loaded buffer of duration \<open>d\<close>, a
  zoom offset in \<open>[0, d)\<close> and chunks of positive duration. The visible range is
  \<open>[zoomOffset, d]\<close>. The result is -1 when the time lies outside the visible range or
  when no chunk intersects it; it is 0 when the time lies inside the visible range but in
  no visible chunk; otherwise it is the position obtained by walking the visible chunks in
  order, accumulating each chunk's proportional width plus the gap width 4, and
  interpolating linearly within the first chunk that contains the time, with divisors
  that are positive.
\<close>

lemma getPixelPositionForTime_cases:
  assumes zoom: "zoomLevel r = 1" and buf: "bufferDuration r = Some d"
    and off: "0 \<le> zoomOffset r" "zoomOffset r < d"
    and pos: "\<forall>c \<in> set (rchunks r). start c < endt c"
  shows "getVisibleTimeRange r = (zoomOffset r, d) \<and>
     (time < zoomOffset r \<or> d < time \<longrightarrow> getPixelPositionForTime r time = - 1) \<and>
     (visibleChunks r = [] \<longrightarrow> getPixelPositionForTime r time = - 1) \<and>
     (zoomOffset r \<le> time \<and> time \<le> d \<and> visibleChunks r \<noteq> [] \<and>
      (\<forall>c \<in> set (visibleChunks r). \<not> owns r time c) \<longrightarrow>
        getPixelPositionForTime r time = 0) \<and>
     (\<forall>pre c post.
        zoomOffset r \<le> time \<and> time \<le> d \<and> visibleChunks r = pre @ c # post \<and>
        (\<forall>p \<in> set pre. \<not> owns r time p) \<and> owns r time c \<longrightarrow>
          0 < clipEnd (getVisibleTimeRange r) c - clipStart (getVisibleTimeRange r) c \<and>
          0 < totalVisibleDuration (getVisibleTimeRange r) (visibleChunks r) \<and>
          getPixelPositionForTime r time =
            sum_list (map (\<lambda>p. widthOf r p + 4) pre) +
            (time - clipStart (getVisibleTimeRange r) c) /
              (clipEnd (getVisibleTimeRange r) c - clipStart (getVisibleTimeRange r) c) *
              widthOf r c)"
proof -
  let ?vr = "getVisibleTimeRange r"
  have vr: "?vr = (zoomOffset r, d)"
    using zoom buf off by (simp add: getVisibleTimeRange_def Let_def min_def)
  have a: "getPixelPositionForTime r time = - 1" if "time < zoomOffset r \<or> d < time"
    using that by (auto simp: getPixelPositionForTime_def Let_def vr)
  have b: "getPixelPositionForTime r time = - 1" if "visibleChunks r = []"
    using that by (simp add: getPixelPositionForTime_def Let_def)
  have walk: "getPixelPositionForTime r time =
      walkChunks ?vr (totalVisibleDuration ?vr (visibleChunks r)) (availableWidth r) time 0
        (visibleChunks r)"
    if "zoomOffset r \<le> time" "time \<le> d" "visibleChunks r \<noteq> []"
    using that by (simp add: getPixelPositionForTime_def Let_def vr)
  have c: "getPixelPositionForTime r time = 0"
    if "zoomOffset r \<le> time \<and> time \<le> d \<and> visibleChunks r \<noteq> [] \<and>
        (\<forall>c \<in> set (visibleChunks r). \<not> owns r time c)"
  proof -
    from that have "\<forall>c \<in> set (visibleChunks r). \<not> (clipStart ?vr c \<le> time \<and> time \<le> clipEnd ?vr c)"
      by (simp add: owns_def)
    from walkChunks_none[OF this] walk that show ?thesis by simp
  qed
  have clip: "0 < clipEnd ?vr c - clipStart ?vr c" if "c \<in> set (visibleChunks r)" for c
  proof -
    from that have "c \<in> set (rchunks r)" "endt c > fst ?vr" "start c < snd ?vr"
      by (simp_all add: visibleChunks_def)
    moreover have "fst ?vr < snd ?vr" using off vr by simp
    ultimately show ?thesis using pos by (intro visible_clip_pos) auto
  qed
  have d: "0 < clipEnd ?vr c - clipStart ?vr c \<and>
          0 < totalVisibleDuration ?vr (visibleChunks r) \<and>
          getPixelPositionForTime r time =
            sum_list (map (\<lambda>p. widthOf r p + 4) pre) +
            (time - clipStart ?vr c) / (clipEnd ?vr c - clipStart ?vr c) * widthOf r c"
    if h: "zoomOffset r \<le> time \<and> time \<le> d \<and> visibleChunks r = pre @ c # post \<and>
        (\<forall>p \<in> set pre. \<not> owns r time p) \<and> owns r time c" for pre c post
  proof -
    from h have vc: "visibleChunks r = pre @ c # post" and ne: "visibleChunks r \<noteq> []" by simp_all
    have 1: "0 < clipEnd ?vr c - clipStart ?vr c" using clip[of c] vc by simp
    have 2: "0 < totalVisibleDuration ?vr (visibleChunks r)"
      using totalVisibleDuration_pos[OF ne] clip by blast
    from h have np: "\<forall>p \<in> set pre. \<not> (clipStart ?vr p \<le> time \<and> time \<le> clipEnd ?vr p)"
      and oc: "clipStart ?vr c \<le> time \<and> time \<le> clipEnd ?vr c"
      by (simp_all add: owns_def)
    have "getPixelPositionForTime r time =
      walkChunks ?vr (totalVisibleDuration ?vr (visibleChunks r)) (availableWidth r) time 0
        (pre @ c # post)"
      using walk[OF _ _ ne] h by simp
    also have "\<dots> = 0 + sum_list (map (\<lambda>p. availableWidth r *
           ((clipEnd ?vr p - clipStart ?vr p) / totalVisibleDuration ?vr (visibleChunks r)) + 4) pre) +
        (time - clipStart ?vr c) / (clipEnd ?vr c - clipStart ?vr c) *
          (availableWidth r * ((clipEnd ?vr c - clipStart ?vr c) /
             totalVisibleDuration ?vr (visibleChunks r)))"
      by (rule walkChunks_owner[OF np oc])
    finally have 3: "getPixelPositionForTime r time =
            sum_list (map (\<lambda>p. widthOf r p + 4) pre) +
            (time - clipStart ?vr c) / (clipEnd ?vr c - clipStart ?vr c) * widthOf r c"
      by (simp add: widthOf_def)
    from 1 2 3 show ?thesis by blast
  qed
  from vr a b c d show ?thesis by blast
qed

text \<open>
  C9. The conversion does not return the sentinel -1 for a time that no chunk owns. At
  zoom level 1 the time 1.5 falls between the chunks \<open>{0,1}\<close> and \<open>{2,3}\<close>, and the time
  2.875 falls after the only chunk \<open>{0,2.75}\<close> of a buffer of 3 s; both lie inside the
  visible range, the loop finds no owning chunk, and the function falls through to
  \<^verbatim>\<open>return 0\<close>, which is the pixel of the left edge. The sentinel is returned only by the
  two early checks: the time 4 lies outside the visible range and gives -1.
\<close>

theorem getPixelPositionForTime_unowned:
  "zoomLevel gapRenderer = 1 \<and> inSomeChunk (3 / 2) (rchunks gapRenderer) = False \<and>
   getPixelPositionForTime gapRenderer (3 / 2) = 0 \<and>
   zoomLevel trailingRenderer = 1 \<and> inSomeChunk (23 / 8) (rchunks trailingRenderer) = False \<and>
   getPixelPositionForTime trailingRenderer (23 / 8) = 0 \<and>
   chunks (deleteTimeRange (initializeChunks 4) (1 / 2) (7 / 4)) = rchunks trailingRenderer \<and>
   getPixelPositionForTime gapRenderer 4 = - 1"
  by (simp add: gapRenderer_def trailingRenderer_def getPixelPositionForTime_def
      getVisibleTimeRange_def visibleChunks_def Let_def clipStart_def clipEnd_def
      deleteTimeRange_def shiftChunk_def initializeChunks_def)

end
